(* ===== verification/Prelude.thy ===== *)
theory Prelude
  imports Complex_Main "HOL-Library.Word"
begin

text \<open>
  Shared vocabulary of the development: the types that name the program's values
  (qubit handles, JavaScript BigInt basis indices, complex amplitudes), the error values
  every fallible operation returns, the two JavaScript number operations the code relies
  on (the store into a \<open>BigUint64Array\<close> slot and the remainder operator \<open>%\<close>), and
  the generic lemmas on lists, sums and bits that the component theories share.
\<close>

unbundle bit_operations_syntax

section \<open>Types of the model\<close>

text \<open>
  A qubit handle is a JavaScript \<open>Symbol\<close>: an opaque identity with equality only. It is
  modelled as a natural number used only through equality; fresh handles are minted by
  the qubit manager (\<open>Qubit_Manager.thy\<close>).
\<close>

type_synonym qubit = nat

text \<open>A basis index as the code computes with it: a JavaScript \<open>BigInt\<close>.\<close>

type_synonym bigint = int

text \<open>The abstract quantum state: a complex amplitude per basis index.\<close>

type_synonym qstate = "int \<Rightarrow> complex"

text \<open>
  Every \<open>throw\<close> of the sources, and every JavaScript \<open>TypeError\<close> the code can run into
  (\<open>BigInt(undefined)\<close> for a handle the simulator does not know, indexing an undefined
  matrix, iterating a missing IF/WHILE body), is a value of this type.
\<close>

datatype error =
    UsageError qubit        \<comment> \<open>``Usage Error: Qubit ... is not allocated in this scope.''\<close>
  | UsageErrorUndefined     \<comment> \<open>the same message for the handle \<open>undefined\<close> (an array read out of range)\<close>
  | SwapSelfError           \<comment> \<open>``Usage Error: Cannot swap a qubit with itself.''\<close>
  | PhysicsError qubit      \<comment> \<open>``Quantum Physics Error: Qubit ... cannot control itself.''\<close>
  | ReleaseError qubit      \<comment> \<open>``Fatal Error: Qubit ... must be reset to |0> before release.''\<close>
  | TypeError               \<comment> \<open>a JavaScript runtime TypeError\<close>
  | CallbackError           \<comment> \<open>an exception thrown by the user's callback code\<close>

named_theorems model_simps "characteristic equations of the executable model"

section \<open>JavaScript number operations\<close>

text \<open>
  A store into a \<open>BigUint64Array\<close> slot converts the BigInt with \<open>BigInt.asUintN(64, _)\<close>:
  the value modulo \<open>2^64\<close>.
\<close>

definition u64 :: "bigint \<Rightarrow> int" where
  "u64 x = take_bit 64 x"

text \<open>
  The remainder operator \<open>%\<close> on numbers truncates the quotient toward zero, so the
  result has the sign of the dividend (unlike HOL's \<open>mod\<close>). Rounding of doubles is not
  modelled: numbers are reals.
\<close>

definition js_rem :: "real \<Rightarrow> real \<Rightarrow> real" where
  "js_rem x y = x - y * of_int (if 0 \<le> x / y then \<lfloor>x / y\<rfloor> else \<lceil>x / y\<rceil>)"

section \<open>Generic lemmas\<close>

subsection \<open>Bits of basis indices\<close>

lemma u64_in_range [simp]: "0 \<le> x \<Longrightarrow> x < 2 ^ 64 \<Longrightarrow> u64 x = x"
  by (simp add: u64_def take_bit_int_eq_self)

lemma u64_idem [simp]: "u64 (u64 x) = u64 x"
  by (simp add: u64_def)

lemma u64_range: "0 \<le> u64 x \<and> u64 x < 2 ^ 64"
  using take_bit_int_less_exp [of 64 x] by (simp add: u64_def)

lemma u64_fixed_iff: "u64 x = x \<longleftrightarrow> 0 \<le> x \<and> x < 2 ^ 64"
  by (auto simp: u64_def take_bit_int_eq_self_iff)

lemma bit_push_bit_one_iff [simp]: "bit (push_bit k (1::int)) n \<longleftrightarrow> n = k"
  by (auto simp: bit_simps)

lemma and_push_bit_nonzero_iff: "((i::int) AND push_bit k 1 \<noteq> 0) \<longleftrightarrow> bit i k"
  by (simp add: push_bit_of_1 and_exp_eq_0_iff_not_bit)

lemma u64_fixed_bit_high: "u64 x = x \<Longrightarrow> 64 \<le> n \<Longrightarrow> \<not> bit x n"
  by (metis bit_take_bit_iff not_le u64_def)

lemma u64_fixed_bitI:
  assumes "0 \<le> x" and "\<And>n. 64 \<le> n \<Longrightarrow> \<not> bit x n"
  shows "u64 x = x"
  unfolding u64_def
  by (rule bit_eqI) (metis assms(2) bit_take_bit_iff not_le)

lemmas bit_ops_int = bit_and_iff bit_or_iff bit_xor_iff bit_not_iff bit_push_bit_one_iff

subsection \<open>Lists updated in place\<close>

text \<open>
  Typed arrays ignore a write past their end, as HOL's \<open>xs[i := v]\<close> does; the lemmas
  below read such buffers back.
\<close>

lemma nth_list_update2:
  "i < length xs \<Longrightarrow> (xs[a := v, b := w]) ! i =
     (if i = b then w else if i = a then v else xs ! i)"
  by (auto simp: nth_list_update)

lemma take_list_update_beyond:
  "n \<le> i \<Longrightarrow> take n (xs[i := v]) = take n xs"
  by (simp add: take_update_cancel)

subsection \<open>Sums over lists\<close>

lemma sum_list_map_upt_sum:
  "sum_list (map f [0..<n]) = sum f {..<n}"
  by (simp add: interv_sum_list_conv_sum_set_nat atLeast0LessThan)

lemma sum_list_map_if_eq:
  "sum_list (map (\<lambda>x. if P x then f x else 0) xs) = sum_list (map f (filter P xs))"
  by (induction xs) auto

subsection \<open>Finite maps\<close>

lemma ran_eq_image_dom: "ran m = (\<lambda>t. the (m t)) ` dom m"
  by (force simp: ran_def dom_def)

lemma card_ran_inj:
  assumes "inj_on m (dom m)" shows "card (ran m) = card (dom m)"
proof -
  have "inj_on (\<lambda>t. the (m t)) (dom m)"
    using assms by (auto simp: inj_on_def dom_def)
  then show ?thesis by (simp add: ran_eq_image_dom card_image)
qed

subsection \<open>Setting and clearing one bit of a basis index\<close>

text \<open>The simulator pairs index \<open>i AND NOT 2^k\<close> (bit \<open>k\<close> clear) with
  \<open>(i AND NOT 2^k) OR 2^k\<close> (bit \<open>k\<close> set); these lemmas say which indices meet.\<close>

lemma and_exp_nonzero_iff: "((i::int) AND 2 ^ k \<noteq> 0) \<longleftrightarrow> bit i k"
  by (simp add: and_exp_eq_0_iff_not_bit)

lemma set_clear_eq_iff:
  fixes i j :: int
  assumes "bit j k"
  shows "((i AND NOT (2 ^ k)) OR 2 ^ k = j) \<longleftrightarrow> (i = j \<or> i = j AND NOT (2 ^ k))"
proof
  assume eq: "(i AND NOT (2 ^ k)) OR 2 ^ k = j"
  have agree: "bit i n = bit j n" if "n \<noteq> k" for n
    using that arg_cong [OF eq, of "\<lambda>x. bit x n"] by (simp add: bit_simps)
  show "i = j \<or> i = j AND NOT (2 ^ k)"
  proof (cases "bit i k")
    case True
    then have "i = j" using agree assms by (intro bit_eqI) (metis True)
    then show ?thesis ..
  next
    case False
    have "i = j AND NOT (2 ^ k)"
    proof (rule bit_eqI)
      fix n show "bit i n = bit (j AND NOT (2 ^ k)) n"
        using False agree [of n] by (cases "n = k") (simp_all add: bit_simps)
    qed
    then show ?thesis ..
  qed
next
  assume "i = j \<or> i = j AND NOT (2 ^ k)"
  then show "(i AND NOT (2 ^ k)) OR 2 ^ k = j"
    using assms by (elim disjE) (rule bit_eqI; auto simp: bit_simps)+
qed

lemma clear_eq_iff:
  fixes i j :: int
  assumes "\<not> bit j k"
  shows "(i AND NOT (2 ^ k) = j) \<longleftrightarrow> (i = j \<or> i = j OR 2 ^ k)"
proof
  assume eq: "i AND NOT (2 ^ k) = j"
  have agree: "bit i n = bit j n" if "n \<noteq> k" for n
    using that arg_cong [OF eq, of "\<lambda>x. bit x n"] by (simp add: bit_simps)
  show "i = j \<or> i = j OR 2 ^ k"
  proof (cases "bit i k")
    case True
    have "i = j OR 2 ^ k"
    proof (rule bit_eqI)
      fix n show "bit i n = bit (j OR 2 ^ k) n"
        using True agree [of n] by (cases "n = k") (simp_all add: bit_simps)
    qed
    then show ?thesis ..
  next
    case False
    then have "i = j" using agree assms by (intro bit_eqI) (metis False)
    then show ?thesis ..
  qed
next
  assume "i = j \<or> i = j OR 2 ^ k"
  then show "i AND NOT (2 ^ k) = j"
    using assms by (elim disjE) (rule bit_eqI; auto simp: bit_simps)+
qed

lemma set_ne_clear:
  fixes i j :: int
  assumes "\<not> bit j k" shows "(i AND NOT (2 ^ k)) OR 2 ^ k \<noteq> j"
proof
  assume eq: "(i AND NOT (2 ^ k)) OR 2 ^ k = j"
  have "bit ((i AND NOT (2 ^ k)) OR 2 ^ k) k" by (simp add: bit_simps)
  with eq assms show False by simp
qed

lemma clear_ne_set:
  fixes i j :: int
  assumes "bit j k" shows "i AND NOT (2 ^ k) \<noteq> j"
proof
  assume eq: "i AND NOT (2 ^ k) = j"
  have "\<not> bit (i AND NOT (2 ^ k)) k" by (simp add: bit_simps)
  with eq assms show False by simp
qed

lemma u64_fixed_bits: "u64 x = x \<longleftrightarrow> 0 \<le> x \<and> (\<forall>n. 64 \<le> n \<longrightarrow> \<not> bit x n)"
  using u64_fixed_bit_high u64_fixed_bitI u64_range by metis

lemma u64_clear_set:
  fixes i :: int
  assumes "u64 i = i" and "k < 64"
  shows "u64 (i AND NOT (2 ^ k)) = i AND NOT (2 ^ k)"
    and "u64 ((i AND NOT (2 ^ k)) OR 2 ^ k) = (i AND NOT (2 ^ k)) OR 2 ^ k"
  using assms unfolding u64_fixed_bits by (auto simp: bit_simps)

subsection \<open>JavaScript remainder\<close>

lemma js_rem_below: "0 \<le> x \<Longrightarrow> x < y \<Longrightarrow> js_rem x y = x"
  by (simp add: js_rem_def floor_eq_iff)

lemma map_filter_append [simp]: "List.map_filter f (xs @ ys) = List.map_filter f xs @ List.map_filter f ys"
  by (simp add: map_filter_def)

end
