(* ===== verification/Gates.thy ===== *)
theory Gates
  imports Prelude
begin

text \<open>
  Part P1, the gate matrix catalog (\<open>src/unnamed/part_006\<close>, the module
  \<open>core/gate-defs.js\<close> that \<open>simulator.js\<close> imports as \<open>GATES\<close>). Each entry is a
  complex \<open>2^n \<times> 2^n\<close> matrix in row-major interleaved form: entry \<open>(r, c)\<close> of an
  \<open>n\<close>-column matrix has its real part at \<open>2 (r n + c)\<close> and its imaginary part right
  after. Parameterised families are functions of their angles. The theory also holds the
  gate names of the intermediate representation, which the catalog is keyed on.
\<close>

section \<open>Gate names\<close>

text \<open>
  The code keys gates by strings. The recognised names are the constructors; any other
  string is \<open>Other\<close>, which the transpiler passes through and the simulator looks up (and
  fails on) like any other.
\<close>

datatype gname =
    H | X | Y | Z | S | T | RX | RY | RZ | U3
  | CNOT | CZ | SWAP | RZZ | CCX
  | RESET | MEASURE | IF | WHILE
  | Other string

section \<open>The catalog\<close>

definition INV_SQRT2 :: real where
  "INV_SQRT2 = 1 / sqrt 2"

definition H_mat :: "real list" where
  "H_mat = [INV_SQRT2, 0, INV_SQRT2, 0,
            INV_SQRT2, 0, - INV_SQRT2, 0]"

definition X_mat :: "real list" where
  "X_mat = [0, 0, 1, 0, 1, 0, 0, 0]"

definition Y_mat :: "real list" where
  "Y_mat = [0, 0, 0, -1, 0, 1, 0, 0]"

definition Z_mat :: "real list" where
  "Z_mat = [1, 0, 0, 0, 0, 0, -1, 0]"

definition RX_mat :: "real \<Rightarrow> real list" where
  "RX_mat theta = (let c = cos (theta / 2); s = - sin (theta / 2) in
     [c, 0, 0, s, 0, s, c, 0])"

definition RY_mat :: "real \<Rightarrow> real list" where
  "RY_mat theta = (let c = cos (theta / 2); s = sin (theta / 2) in
     [c, 0, - s, 0, s, 0, c, 0])"

definition RZ_mat :: "real \<Rightarrow> real list" where
  "RZ_mat theta = (let c = cos (theta / 2); s = sin (theta / 2) in
     [c, - s, 0, 0, 0, 0, c, s])"

definition U3_mat :: "real \<Rightarrow> real \<Rightarrow> real \<Rightarrow> real list" where
  "U3_mat theta phi lam = (let c = cos (theta / 2); s = sin (theta / 2) in
     [c, 0,
      - s * cos lam, - s * sin lam,
      s * cos phi, s * sin phi,
      c * cos (phi + lam), c * sin (phi + lam)])"

definition CNOT_mat :: "real list" where
  "CNOT_mat = [1, 0, 0, 0, 0, 0, 0, 0,
               0, 0, 1, 0, 0, 0, 0, 0,
               0, 0, 0, 0, 0, 0, 1, 0,
               0, 0, 0, 0, 1, 0, 0, 0]"

definition CZ_mat :: "real list" where
  "CZ_mat = [1, 0, 0, 0, 0, 0, 0, 0,
             0, 0, 1, 0, 0, 0, 0, 0,
             0, 0, 0, 0, 1, 0, 0, 0,
             0, 0, 0, 0, 0, 0, -1, 0]"

definition SWAP_mat :: "real list" where
  "SWAP_mat = [1, 0, 0, 0, 0, 0, 0, 0,
               0, 0, 0, 0, 1, 0, 0, 0,
               0, 0, 1, 0, 0, 0, 0, 0,
               0, 0, 0, 0, 0, 0, 1, 0]"

definition S_mat :: "real list" where
  "S_mat = [1, 0, 0, 0, 0, 0, 0, 1]"

definition T_mat :: "real list" where
  "T_mat = [1, 0, 0, 0,
            0, 0, cos (pi / 4), sin (pi / 4)]"

definition RZZ_mat :: "real \<Rightarrow> real list" where
  "RZZ_mat theta = (let c = cos (theta / 2); s = sin (theta / 2) in
     [c, - s, 0, 0, 0, 0, 0, 0,
      0, 0, c, s, 0, 0, 0, 0,
      0, 0, 0, 0, c, s, 0, 0,
      0, 0, 0, 0, 0, 0, c, - s])"

definition CCX_mat :: "real list" where
  "CCX_mat = [1,0,0,0,0,0,0,0,0,0,0,0,0,0,0,0,
              0,0,1,0,0,0,0,0,0,0,0,0,0,0,0,0,
              0,0,0,0,1,0,0,0,0,0,0,0,0,0,0,0,
              0,0,0,0,0,0,1,0,0,0,0,0,0,0,0,0,
              0,0,0,0,0,0,0,0,1,0,0,0,0,0,0,0,
              0,0,0,0,0,0,0,0,0,0,1,0,0,0,0,0,
              0,0,0,0,0,0,0,0,0,0,0,0,0,0,1,0,
              0,0,0,0,0,0,0,0,0,0,0,0,1,0,0,0]"

text \<open>
  \<open>GATES[gateName]\<close> followed by \<open>matrix(...params)\<close> for the parameterised entries.
  \<open>None\<close> is a name the catalog lacks (the code then reads \<open>undefined[gIdx]\<close>, a
  TypeError); a parameterised family called with too few angles is \<open>None\<close> too: the code
  would build a matrix of NaNs, which reals cannot express. Extra angles are ignored, as
  JavaScript ignores extra arguments.
\<close>

fun GATES :: "gname \<Rightarrow> real list \<Rightarrow> real list option" where
  "GATES H _ = Some H_mat"
| "GATES X _ = Some X_mat"
| "GATES Y _ = Some Y_mat"
| "GATES Z _ = Some Z_mat"
| "GATES RX ps = (case ps of theta # _ \<Rightarrow> Some (RX_mat theta) | [] \<Rightarrow> None)"
| "GATES RY ps = (case ps of theta # _ \<Rightarrow> Some (RY_mat theta) | [] \<Rightarrow> None)"
| "GATES RZ ps = (case ps of theta # _ \<Rightarrow> Some (RZ_mat theta) | [] \<Rightarrow> None)"
| "GATES U3 ps = (case ps of theta # phi # lam # _ \<Rightarrow> Some (U3_mat theta phi lam) | _ \<Rightarrow> None)"
| "GATES CNOT _ = Some CNOT_mat"
| "GATES CZ _ = Some CZ_mat"
| "GATES SWAP _ = Some SWAP_mat"
| "GATES S _ = Some S_mat"
| "GATES T _ = Some T_mat"
| "GATES RZZ ps = (case ps of theta # _ \<Rightarrow> Some (RZZ_mat theta) | [] \<Rightarrow> None)"
| "GATES CCX _ = Some CCX_mat"
| "GATES RESET _ = None"
| "GATES MEASURE _ = None"
| "GATES IF _ = None"
| "GATES WHILE _ = None"
| "GATES (Other _) _ = None"

section \<open>The complex matrix a flat array stands for\<close>

text \<open>Entry \<open>(r, c)\<close> of an \<open>n\<close>-column interleaved matrix, read as the code reads it.\<close>

definition mat_entry :: "real list \<Rightarrow> nat \<Rightarrow> nat \<Rightarrow> nat \<Rightarrow> complex" where
  "mat_entry m n r c = Complex (m ! ((r * n + c) * 2)) (m ! ((r * n + c) * 2 + 1))"

text \<open>\<open>M\<^sup>\<dagger> M = I\<close>: the columns are orthonormal.\<close>

definition unitary :: "real list \<Rightarrow> nat \<Rightarrow> bool" where
  "unitary m n \<longleftrightarrow> (\<forall>i<n. \<forall>j<n.
     (\<Sum>k<n. cnj (mat_entry m n k i) * mat_entry m n k j) = (if i = j then 1 else 0))"

end
