(* ===== verification/Sparse_State.thy ===== *)
theory Sparse_State
  imports Prelude Gates
begin

text \<open>
  Part P2, first part: the storage of the sparse simulator
  (\<open>src/src/core/simulator.js\<close>, class \<open>Simulator\<close>, and the \<open>NoiseModel\<close> class
  concatenated after it). The state is the class's private fields: two pairs of flat
  typed arrays (the active pair \<open>#indices\<close>/\<open>#amplitudes\<close> and the scatter destination
  \<open>#indicesAux\<close>/\<open>#amplitudesAux\<close>), the active count, the position map of the qubits,
  the noise profile, the prune budget, the optional epsilon override and the
  measurement cache. \<open>Math.random\<close> is the stream \<open>rng\<close> read at position \<open>draws\<close>.
  A \<open>BigUint64Array\<close> is an \<open>int list\<close> whose stores go through \<open>u64\<close>; a
  \<open>Float64Array\<close> of interleaved amplitudes is a \<open>real list\<close> with the real part of slot
  \<open>b\<close> at \<open>b * 2\<close> and the imaginary part at \<open>b * 2 + 1\<close>. The theory defines the
  buffer operations (\<open>#ensureCapacity\<close>, \<open>#swapBuffers\<close>, the collision-map scatter
  steps of the gate loops, \<open>#accumulate\<close>, \<open>#updateState\<close>, \<open>#prune\<close>) and proves the
  scatter invariant: the collision map and the destination buffer together hold, for each
  distinct destination index, the sum of the contributions sent to it.
\<close>

section \<open>State\<close>

record noise_model =
  gateError :: real
  readoutError :: real
  t1 :: real
  t2 :: real

record sim =
  indices :: "int list"
  amplitudes :: "real list"
  indicesAux :: "int list"
  amplitudesAux :: "real list"
  activeCount :: nat
  qubitMap :: "qubit \<rightharpoonup> nat"
  noiseModel :: "noise_model option"
  memoryBudget :: nat
  epsilon :: "real option"
  results :: "qubit \<rightharpoonup> int"
  rng :: "nat \<Rightarrow> real"
  draws :: nat

text \<open>\<open>new Map(qubits.map((q, i) => [q, i]))\<close>: later pairs overwrite earlier ones.\<close>

definition position_map :: "qubit list \<Rightarrow> qubit \<rightharpoonup> nat" where
  "position_map qubits = fold (\<lambda>(q, i) m. m(q \<mapsto> i)) (zip qubits [0..<length qubits]) Map.empty"

text \<open>
  The constructor. \<open>options.epsilon || null\<close> treats an override of \<open>0\<close> as absent.
  The initial capacity is \<open>#memoryBudget * 2\<close>.
\<close>

definition Simulator :: "qubit list \<Rightarrow> noise_model option \<Rightarrow> real option \<Rightarrow> (nat \<Rightarrow> real) \<Rightarrow> sim" where
  "Simulator qubits nm eps r =
     (let memoryBudget = 5000; initialCapacity = memoryBudget * 2 in
      \<lparr>indices = (replicate initialCapacity 0)[0 := 0],
       amplitudes = (replicate (initialCapacity * 2) 0)[0 := 1, 1 := 0],
       indicesAux = replicate initialCapacity 0,
       amplitudesAux = replicate (initialCapacity * 2) 0,
       activeCount = 1,
       qubitMap = position_map qubits,
       noiseModel = nm,
       memoryBudget = memoryBudget,
       epsilon = (case eps of Some e \<Rightarrow> if e = 0 then None else Some e | None \<Rightarrow> None),
       results = Map.empty,
       rng = r,
       draws = 0\<rparr>)"

text \<open>One call of \<open>Math.random()\<close>.\<close>

definition random :: "sim \<Rightarrow> real \<times> sim" where
  "random s = (rng s (draws s), s\<lparr>draws := Suc (draws s)\<rparr>)"

text \<open>\<open>1n << BigInt(this.#qubitMap.get(q))\<close>: \<open>BigInt(undefined)\<close> throws.\<close>

definition qubit_bit :: "sim \<Rightarrow> qubit \<Rightarrow> error + bigint" where
  "qubit_bit s q = (case qubitMap s q of None \<Rightarrow> Inl TypeError | Some k \<Rightarrow> Inr (push_bit k 1))"

definition ensureCapacity :: "nat \<Rightarrow> sim \<Rightarrow> sim" where
  "ensureCapacity required s =
     (if length (indices s) < required then
        (let newSize = max (length (indices s) * 2) required in
         s\<lparr>indices := indices s @ replicate (newSize - length (indices s)) 0,
           amplitudes := amplitudes s @ replicate (newSize * 2 - length (amplitudes s)) 0,
           indicesAux := replicate newSize 0,
           amplitudesAux := replicate (newSize * 2) 0\<rparr>)
      else s)"

definition swapBuffers :: "sim \<Rightarrow> sim" where
  "swapBuffers s = s\<lparr>indices := indicesAux s, indicesAux := indices s,
                     amplitudes := amplitudesAux s, amplitudesAux := amplitudes s\<rparr>"

section \<open>Scatter primitives\<close>

text \<open>
  The locals of one gate loop: the collision map (destination index to write slot),
  \<open>nextCount\<close>, and the destination buffers the loop writes.
\<close>

record scatter =
  collisionMap :: "bigint \<rightharpoonup> nat"
  nextCount :: nat
  idxOut :: "int list"
  ampOut :: "real list"

definition scatter_init :: "sim \<Rightarrow> scatter" where
  "scatter_init s = \<lparr>collisionMap = Map.empty, nextCount = 0,
                     idxOut = indicesAux s, ampOut = amplitudesAux s\<rparr>"

text \<open>\<open>#updateState\<close>: complex multiply-accumulate into slot \<open>bIdx\<close>.\<close>

definition updateState :: "real list \<Rightarrow> nat \<Rightarrow> real \<Rightarrow> real \<Rightarrow> real \<Rightarrow> real \<Rightarrow> real list" where
  "updateState buffer bIdx re im gRe gIm =
     (let buffer1 = buffer[bIdx := buffer ! bIdx + (re * gRe - im * gIm)]
      in buffer1[bIdx + 1 := buffer1 ! (bIdx + 1) + (re * gIm + im * gRe)])"

text \<open>
  Look the destination index up in the collision map, or give it the next write slot and
  zero that slot.
\<close>

definition claim_slot :: "bigint \<Rightarrow> scatter \<Rightarrow> nat \<times> scatter" where
  "claim_slot tIdx a =
     (case collisionMap a tIdx of
        Some bPos \<Rightarrow> (bPos, a)
      | None \<Rightarrow>
          (let bPos = nextCount a in
           (bPos, a\<lparr>nextCount := Suc bPos,
                    collisionMap := (collisionMap a)(tIdx \<mapsto> bPos),
                    idxOut := (idxOut a)[bPos := u64 tIdx],
                    ampOut := (ampOut a)[bPos * 2 := 0, bPos * 2 + 1 := 0]\<rparr>)))"

text \<open>One row of a gate loop: claim the slot, then \<open>#updateState\<close> into it.\<close>

definition scatter_row :: "bigint \<Rightarrow> real \<Rightarrow> real \<Rightarrow> real \<Rightarrow> real \<Rightarrow> scatter \<Rightarrow> scatter" where
  "scatter_row tIdx re im gRe gIm a =
     (let (bPos, a1) = claim_slot tIdx a
      in a1\<lparr>ampOut := updateState (ampOut a1) (bPos * 2) re im gRe gIm\<rparr>)"

text \<open>
  The row loop \<open>for (let row = 0; row < n; row++)\<close> shared by the one-, two- and
  three-qubit gates: destination \<open>targets[row]\<close>, matrix element \<open>(row * n + col)\<close>.
\<close>

definition scatter_rows :: "nat \<Rightarrow> real list \<Rightarrow> bigint list \<Rightarrow> nat \<Rightarrow> real \<Rightarrow> real \<Rightarrow> scatter \<Rightarrow> scatter" where
  "scatter_rows n matrix targets col re im a =
     fold (\<lambda>row. let tIdx = targets ! row; gIdx = (row * n + col) * 2
                 in scatter_row tIdx re im (matrix ! gIdx) (matrix ! (gIdx + 1)))
          [0..<n] a"

text \<open>
  \<open>#accumulate(indices, amplitudes, map, idx, re, im, count)\<close>: add \<open>(re, im)\<close> into
  the slot of \<open>idx\<close>, which is \<open>count\<close> when \<open>idx\<close> is new. Its callers pass
  \<open>nextCount++\<close>, so the count grows even when \<open>idx\<close> is already mapped.
\<close>

definition accumulate :: "bigint \<Rightarrow> real \<Rightarrow> real \<Rightarrow> nat \<Rightarrow> scatter \<Rightarrow> scatter" where
  "accumulate idx re im count a =
     (let (bPos, a1) =
        (case collisionMap a idx of
           Some b \<Rightarrow> (b, a)
         | None \<Rightarrow> (count, a\<lparr>collisionMap := (collisionMap a)(idx \<mapsto> count),
                              idxOut := (idxOut a)[count := u64 idx],
                              ampOut := (ampOut a)[count * 2 := 0, count * 2 + 1 := 0]\<rparr>));
          amps = ampOut a1;
          amps1 = amps[bPos * 2 := amps ! (bPos * 2) + re]
      in a1\<lparr>ampOut := amps1[bPos * 2 + 1 := amps1 ! (bPos * 2 + 1) + im]\<rparr>)"

text \<open>\<open>this.#accumulate(..., nextCount++)\<close>.\<close>

definition accumulate_next :: "bigint \<Rightarrow> real \<Rightarrow> real \<Rightarrow> scatter \<Rightarrow> scatter" where
  "accumulate_next idx re im a =
     accumulate idx re im (nextCount a) (a\<lparr>nextCount := Suc (nextCount a)\<rparr>)"

text \<open>
  The outer loop \<open>for (let i = 0; i < this.#activeCount; i++)\<close> of every gate: the body
  receives the entry's index and amplitude.
\<close>

definition scatter_all :: "(bigint \<Rightarrow> real \<Rightarrow> real \<Rightarrow> scatter \<Rightarrow> scatter) \<Rightarrow> sim \<Rightarrow> scatter \<Rightarrow> scatter" where
  "scatter_all body s a =
     fold (\<lambda>i. body (indices s ! i) (amplitudes s ! (i * 2)) (amplitudes s ! (i * 2 + 1)))
          [0..<activeCount s] a"

text \<open>\<open>this.#activeCount = nextCount; this.#swapBuffers();\<close> (the prune follows).\<close>

definition scatter_commit :: "sim \<Rightarrow> scatter \<Rightarrow> sim" where
  "scatter_commit s a =
     swapBuffers (s\<lparr>indicesAux := idxOut a, amplitudesAux := ampOut a, activeCount := nextCount a\<rparr>)"

section \<open>Pruning\<close>

definition prune_base :: real where
  "prune_base = 1 / 10 ^ 15"

text \<open>\<open>1e-15 * max(1, activeCount / memoryBudget)\<close>.\<close>

definition prune_threshold :: "sim \<Rightarrow> real" where
  "prune_threshold s =
     prune_base * max 1 (real (activeCount s) / real (memoryBudget s))"

text \<open>One iteration of the in-place compaction loop of \<open>#prune\<close>.\<close>

definition prune_step :: "real \<Rightarrow> nat \<Rightarrow> nat \<times> int list \<times> real list \<Rightarrow> nat \<times> int list \<times> real list" where
  "prune_step threshold i st =
     (let (writeIdx, idxs, amps) = st;
          magnitude = (amps ! (i * 2))\<^sup>2 + (amps ! (i * 2 + 1))\<^sup>2
      in if threshold \<le> magnitude then
           (if writeIdx \<noteq> i then
              (Suc writeIdx, idxs[writeIdx := idxs ! i],
               amps[writeIdx * 2 := amps ! (i * 2), writeIdx * 2 + 1 := amps ! (i * 2 + 1)])
            else (Suc writeIdx, idxs, amps))
         else st)"

definition prune :: "sim \<Rightarrow> sim" where
  "prune s =
     (let (writeIdx, idxs, amps) =
        fold (prune_step (prune_threshold s)) [0..<activeCount s] (0, indices s, amplitudes s)
      in s\<lparr>indices := idxs, amplitudes := amps, activeCount := writeIdx\<rparr>)"

section \<open>The abstract view of the buffers\<close>

text \<open>The complex amplitude in write slot \<open>b\<close> of an interleaved buffer.\<close>

definition slot_amp :: "real list \<Rightarrow> nat \<Rightarrow> complex" where
  "slot_amp amps b = Complex (amps ! (b * 2)) (amps ! (b * 2 + 1))"

text \<open>The first \<open>n\<close> entries of an index buffer and an amplitude buffer.\<close>

definition view :: "int list \<Rightarrow> real list \<Rightarrow> nat \<Rightarrow> (int \<times> complex) list" where
  "view idxs amps n = map (\<lambda>b. (idxs ! b, slot_amp amps b)) [0..<n]"

definition entries :: "sim \<Rightarrow> (int \<times> complex) list" where
  "entries s = view (indices s) (amplitudes s) (activeCount s)"

text \<open>The state a list of entries stands for: the sum of the amplitudes per index.\<close>

definition amp_of :: "(int \<times> complex) list \<Rightarrow> qstate" where
  "amp_of es j = (\<Sum>(i, z) \<leftarrow> es. if i = j then z else 0)"

text \<open>Well-formed buffers: as the constructor makes them, and as every operation keeps them.\<close>

definition buffers_ok :: "sim \<Rightarrow> bool" where
  "buffers_ok s \<longleftrightarrow>
     length (amplitudes s) = 2 * length (indices s) \<and>
     length (indicesAux s) = length (indices s) \<and>
     length (amplitudesAux s) = 2 * length (indices s) \<and>
     activeCount s \<le> length (indices s) \<and>
     0 < memoryBudget s"

text \<open>The sparse-state invariant: distinct 64-bit indices in the active region.\<close>

definition sparse_ok :: "sim \<Rightarrow> bool" where
  "sparse_ok s \<longleftrightarrow> buffers_ok s \<and>
     distinct (map fst (entries s)) \<and> (\<forall>(i, z) \<in> set (entries s). u64 i = i)"

section \<open>The scatter invariant\<close>

text \<open>
  After the contributions \<open>cs\<close> (destination index, complex addend) have been sent
  through the collision map: the mapped keys are exactly the destinations of \<open>cs\<close>,
  they own the write slots \<open>0 ..< nextCount\<close> one each, and the slot of a key holds
  the key (as stored) and the sum of its contributions.
\<close>

definition slots_inv :: "nat \<Rightarrow> (int \<times> complex) list \<Rightarrow> (bigint \<rightharpoonup> nat) \<Rightarrow> nat \<Rightarrow> int list
    \<Rightarrow> real list \<Rightarrow> bool" where
  "slots_inv cap cs m n idx amps \<longleftrightarrow>
     length idx = cap \<and> length amps = 2 * cap \<and>
     dom m = fst ` set cs \<and> inj_on m (dom m) \<and> ran m = {..<n} \<and>
     (\<forall>t b. m t = Some b \<longrightarrow> b < cap \<and> idx ! b = u64 t \<and> slot_amp amps b = amp_of cs t)"

definition scat_inv :: "nat \<Rightarrow> (int \<times> complex) list \<Rightarrow> scatter \<Rightarrow> bool" where
  "scat_inv cap cs a \<longleftrightarrow> slots_inv cap cs (collisionMap a) (nextCount a) (idxOut a) (ampOut a)"

text \<open>The contributions of one source entry of amplitude \<open>z\<close> in column \<open>col\<close>.\<close>

definition gate_contribs :: "nat \<Rightarrow> real list \<Rightarrow> bigint list \<Rightarrow> nat \<Rightarrow> complex \<Rightarrow> (int \<times> complex) list" where
  "gate_contribs n m targets col z = map (\<lambda>row. (targets ! row, z * mat_entry m n row col)) [0..<n]"

text \<open>Reading the destination buffer back: one slot per distinct destination index.\<close>

definition out_view :: "scatter \<Rightarrow> (int \<times> complex) list" where
  "out_view a = view (idxOut a) (ampOut a) (nextCount a)"

section \<open>What pruning keeps\<close>

text \<open>An entry survives \<open>#prune\<close> when its squared magnitude reaches the threshold;
  \<open>prune_amp\<close> is the same cut on the abstract state. \<open>compact_inv P g\<close> is the invariant
  of an in-place compaction loop (\<open>#prune\<close>, \<open>#collapse\<close>) after \<open>i\<close> iterations: the
  first \<open>writeIdx\<close> slots hold the source entries among the first \<open>i\<close> that satisfy
  \<open>P\<close>, their amplitudes mapped by \<open>g\<close>, and the slots from \<open>i\<close> on are untouched.\<close>

definition keep_amp :: "real \<Rightarrow> int \<times> complex \<Rightarrow> bool" where
  "keep_amp thr e \<longleftrightarrow> thr \<le> (Re (snd e))\<^sup>2 + (Im (snd e))\<^sup>2"

definition prune_amp :: "real \<Rightarrow> qstate \<Rightarrow> qstate" where
  "prune_amp thr \<psi> j = (if thr \<le> (Re (\<psi> j))\<^sup>2 + (Im (\<psi> j))\<^sup>2 then \<psi> j else 0)"

definition compact_inv :: "(int \<times> complex \<Rightarrow> bool) \<Rightarrow> (complex \<Rightarrow> complex) \<Rightarrow> nat \<Rightarrow> int list
    \<Rightarrow> real list \<Rightarrow> nat \<Rightarrow> nat \<times> int list \<times> real list \<Rightarrow> bool" where
  "compact_inv P g n idxs0 amps0 i st \<longleftrightarrow>
     (case st of (w, idxs, amps) \<Rightarrow>
        w \<le> i \<and> length idxs = length idxs0 \<and> length amps = length amps0 \<and>
        view idxs amps w = map (apsnd g) (filter P (view idxs0 amps0 i)) \<and>
        (\<forall>b. i \<le> b \<and> b < n \<longrightarrow> idxs ! b = idxs0 ! b \<and> slot_amp amps b = slot_amp amps0 b))"

section \<open>Lemmas: the abstract view\<close>

lemma amp_of_Nil [simp]: "amp_of [] j = 0"
  by (simp add: amp_of_def)

lemma amp_of_append [simp]: "amp_of (xs @ ys) j = amp_of xs j + amp_of ys j"
  by (simp add: amp_of_def)

lemma amp_of_Cons [simp]: "amp_of ((i, z) # es) j = (if i = j then z else 0) + amp_of es j"
  by (simp add: amp_of_def)

lemma amp_of_notin: "j \<notin> fst ` set es \<Longrightarrow> amp_of es j = 0"
  by (induction es) (auto simp: amp_of_def)

lemma slot_amp_update_other:
  "b' \<noteq> b \<Longrightarrow> slot_amp (xs[b * 2 := u, Suc (b * 2) := v]) b' = slot_amp xs b'"
  by (simp add: slot_amp_def nth_list_update)

lemma slot_amp_update_same:
  "Suc (b * 2) < length xs \<Longrightarrow> slot_amp (xs[b * 2 := u, Suc (b * 2) := v]) b = Complex u v"
  by (simp add: slot_amp_def nth_list_update)

lemma updateState_slot:
  assumes "b * 2 + 1 < length buf"
  shows "slot_amp (updateState buf (b * 2) re im gRe gIm) b' =
           (if b' = b then slot_amp buf b + Complex re im * Complex gRe gIm else slot_amp buf b')"
  using assms
  by (auto simp: updateState_def slot_amp_def nth_list_update Let_def complex_eq_iff algebra_simps)

lemma length_updateState [simp]: "length (updateState buf i re im gRe gIm) = length buf"
  by (simp add: updateState_def Let_def)

lemma amp_of_snoc: "amp_of (cs @ [(t, z)]) j = amp_of cs j + (if t = j then z else 0)"
  by (simp add: amp_of_def)

section \<open>Lemmas: the scatter invariant\<close>

lemma slots_invI:
  assumes "length idx = cap" and "length amps = 2 * cap"
    and "dom m = fst ` set cs" and "inj_on m (dom m)" and "ran m = {..<n}"
    and "\<And>t b. m t = Some b \<Longrightarrow> b < cap"
    and "\<And>t b. m t = Some b \<Longrightarrow> idx ! b = u64 t"
    and "\<And>t b. m t = Some b \<Longrightarrow> slot_amp amps b = amp_of cs t"
  shows "slots_inv cap cs m n idx amps"
  using assms by (simp add: slots_inv_def)

lemma slots_invD:
  assumes "slots_inv cap cs m n idx amps"
  shows "length idx = cap" and "length amps = 2 * cap"
    and "dom m = fst ` set cs" and "inj_on m (dom m)" and "ran m = {..<n}"
    and "m t = Some b \<Longrightarrow> b < cap"
    and "m t = Some b \<Longrightarrow> idx ! b = u64 t"
    and "m t = Some b \<Longrightarrow> slot_amp amps b = amp_of cs t"
  using assms unfolding slots_inv_def by blast+

lemma slots_inv_fresh:
  assumes inv: "slots_inv cap cs m n idx amps" and None: "m t = None"
    and room: "n < cap" and len: "length amps' = 2 * cap"
    and new: "slot_amp amps' n = z"
    and old: "\<And>b'. b' \<noteq> n \<Longrightarrow> slot_amp amps' b' = slot_amp amps b'"
  shows "slots_inv cap (cs @ [(t, z)]) (m(t \<mapsto> n)) (Suc n) (idx[n := u64 t]) amps'"
proof (rule slots_invI)
  have ran: "ran m = {..<n}" by (rule slots_invD(5) [OF inv])
  have fresh: "m t' \<noteq> Some n" for t' using ran by (auto simp: ran_def)
  have tnot: "t \<notin> fst ` set cs" using None slots_invD(3) [OF inv] by blast
  show "length (idx[n := u64 t]) = cap" using slots_invD(1) [OF inv] by simp
  show "length amps' = 2 * cap" by (rule len)
  show "dom (m(t \<mapsto> n)) = fst ` set (cs @ [(t, z)])" using slots_invD(3) [OF inv] by simp
  show "inj_on (m(t \<mapsto> n)) (dom (m(t \<mapsto> n)))"
    using slots_invD(4) [OF inv] fresh None unfolding inj_on_def by (metis domIff fun_upd_apply)
  show "ran (m(t \<mapsto> n)) = {..<Suc n}" using ran None by (auto simp: lessThan_Suc)
  show "b < cap" if "(m(t \<mapsto> n)) t' = Some b" for t' b
    using that room slots_invD(6) [OF inv] by (cases "t' = t") auto
  show "idx[n := u64 t] ! b = u64 t'" if "(m(t \<mapsto> n)) t' = Some b" for t' b
  proof (cases "t' = t")
    case True
    with that room slots_invD(1) [OF inv] show ?thesis by simp
  next
    case False
    with that have "m t' = Some b" by simp
    moreover from this fresh have "b \<noteq> n" by auto
    ultimately show ?thesis using slots_invD(7) [OF inv] by simp
  qed
  show "slot_amp amps' b = amp_of (cs @ [(t, z)]) t'" if "(m(t \<mapsto> n)) t' = Some b" for t' b
  proof (cases "t' = t")
    case True
    with that new tnot show ?thesis by (simp add: amp_of_snoc amp_of_notin)
  next
    case False
    with that have "m t' = Some b" by simp
    moreover from this fresh have "b \<noteq> n" by auto
    ultimately show ?thesis using slots_invD(8) [OF inv] old False by (simp add: amp_of_snoc)
  qed
qed

lemma slots_inv_existing:
  assumes inv: "slots_inv cap cs m n idx amps" and Some: "m t = Some b"
    and len: "length amps' = 2 * cap"
    and this_slot: "slot_amp amps' b = slot_amp amps b + z"
    and old: "\<And>b'. b' \<noteq> b \<Longrightarrow> slot_amp amps' b' = slot_amp amps b'"
  shows "slots_inv cap (cs @ [(t, z)]) m n idx amps'"
proof (rule slots_invI)
  have same: "t' = t" if "m t' = Some b" for t'
    using slots_invD(4) [OF inv] Some that unfolding inj_on_def by (metis domI)
  show "length idx = cap" by (rule slots_invD(1) [OF inv])
  show "length amps' = 2 * cap" by (rule len)
  show "dom m = fst ` set (cs @ [(t, z)])"
    using slots_invD(3) [OF inv] Some by auto
  show "inj_on m (dom m)" by (rule slots_invD(4) [OF inv])
  show "ran m = {..<n}" by (rule slots_invD(5) [OF inv])
  show "b' < cap" if "m t' = Some b'" for t' b' using that by (rule slots_invD(6) [OF inv])
  show "idx ! b' = u64 t'" if "m t' = Some b'" for t' b' using that by (rule slots_invD(7) [OF inv])
  show "slot_amp amps' b' = amp_of (cs @ [(t, z)]) t'" if "m t' = Some b'" for t' b'
  proof (cases "t' = t")
    case True
    with that Some this_slot slots_invD(8) [OF inv Some] show ?thesis by (simp add: amp_of_snoc)
  next
    case False
    with that same have "b' \<noteq> b" by auto
    with that old False slots_invD(8) [OF inv that] show ?thesis by (simp add: amp_of_snoc)
  qed
qed

lemma scat_inv_init:
  "length (indicesAux s) = cap \<Longrightarrow> length (amplitudesAux s) = 2 * cap \<Longrightarrow>
   scat_inv cap [] (scatter_init s)"
  by (simp add: scat_inv_def slots_inv_def scatter_init_def)

lemma scatter_row_inv:
  assumes inv: "scat_inv cap cs a"
    and room: "collisionMap a t = None \<Longrightarrow> nextCount a < cap"
  shows "scat_inv cap (cs @ [(t, Complex re im * Complex gRe gIm)]) (scatter_row t re im gRe gIm a)"
proof (cases "collisionMap a t")
  case (Some b)
  let ?u = "updateState (ampOut a) (b * 2) re im gRe gIm"
  from inv have sl: "slots_inv cap cs (collisionMap a) (nextCount a) (idxOut a) (ampOut a)"
    by (simp add: scat_inv_def)
  have len: "b * 2 + 1 < length (ampOut a)"
    using slots_invD(2) [OF sl] slots_invD(6) [OF sl Some] by simp
  have this_slot: "slot_amp ?u b = slot_amp (ampOut a) b + Complex re im * Complex gRe gIm"
    using len by (simp add: updateState_slot)
  have old: "b' \<noteq> b \<Longrightarrow> slot_amp ?u b' = slot_amp (ampOut a) b'" for b'
    using len by (simp add: updateState_slot)
  have "length ?u = 2 * cap" using slots_invD(2) [OF sl] by simp
  from slots_inv_existing [OF sl Some this this_slot old]
  show ?thesis using Some by (simp add: scat_inv_def scatter_row_def claim_slot_def)
next
  case None
  let ?n = "nextCount a"
  let ?z = "(ampOut a)[?n * 2 := 0, ?n * 2 + 1 := 0]"
  let ?u = "updateState ?z (?n * 2) re im gRe gIm"
  from inv have sl: "slots_inv cap cs (collisionMap a) ?n (idxOut a) (ampOut a)"
    by (simp add: scat_inv_def)
  from None room have r: "?n < cap" by simp
  have len: "?n * 2 + 1 < length ?z" using slots_invD(2) [OF sl] r by simp
  have zero: "slot_amp ?z ?n = 0"
    using len by (simp add: slot_amp_def nth_list_update complex_eq_iff)
  have new: "slot_amp ?u ?n = Complex re im * Complex gRe gIm"
    using len zero by (simp add: updateState_slot)
  have old: "b' \<noteq> ?n \<Longrightarrow> slot_amp ?u b' = slot_amp (ampOut a) b'" for b'
    using len by (simp add: updateState_slot slot_amp_update_other)
  have "length ?u = 2 * cap" using slots_invD(2) [OF sl] by simp
  from slots_inv_fresh [OF sl None r this new old]
  show ?thesis using None by (simp add: scat_inv_def scatter_row_def claim_slot_def Let_def)
qed

lemma accumulate_next_inv:
  assumes inv: "scat_inv cap cs a"
    and new: "t \<notin> fst ` set cs" and room: "nextCount a < cap"
  shows "scat_inv cap (cs @ [(t, Complex re im)]) (accumulate_next t re im a)"
proof -
  let ?n = "nextCount a"
  let ?z = "(ampOut a)[?n * 2 := 0, ?n * 2 + 1 := 0]"
  let ?z1 = "?z[?n * 2 := ?z ! (?n * 2) + re]"
  let ?z2 = "?z1[?n * 2 + 1 := ?z1 ! (?n * 2 + 1) + im]"
  from inv have sl: "slots_inv cap cs (collisionMap a) ?n (idxOut a) (ampOut a)"
    by (simp add: scat_inv_def)
  from new slots_invD(3) [OF sl] have None: "collisionMap a t = None" by auto
  have len: "?n * 2 + 1 < length (ampOut a)" using slots_invD(2) [OF sl] room by simp
  have slot_new: "slot_amp ?z2 ?n = Complex re im"
    using len by (simp add: slot_amp_def nth_list_update)
  have slot_old: "b' \<noteq> ?n \<Longrightarrow> slot_amp ?z2 b' = slot_amp (ampOut a) b'" for b'
    by (simp add: slot_amp_def nth_list_update)
  have "length ?z2 = 2 * cap" using slots_invD(2) [OF sl] by simp
  from slots_inv_fresh [OF sl None room this slot_new slot_old]
  show ?thesis
    using None by (simp add: scat_inv_def accumulate_next_def accumulate_def Let_def)
qed

lemma scat_inv_nextCount:
  assumes "scat_inv cap cs a" shows "nextCount a \<le> length cs"
proof -
  from assms have "inj_on (collisionMap a) (dom (collisionMap a))"
    and "ran (collisionMap a) = {..<nextCount a}" unfolding scat_inv_def slots_inv_def by blast+
  then have "nextCount a = card (dom (collisionMap a))"
    using card_ran_inj by fastforce
  also have "\<dots> = card (fst ` set cs)" using assms by (simp add: scat_inv_def slots_inv_def)
  also have "\<dots> \<le> length cs"
    using card_image_le [of "set cs" fst] card_length [of cs] by simp
  finally show ?thesis .
qed

lemma scatter_rows_inv:
  assumes inv: "scat_inv cap cs a" and room: "length cs + n \<le> cap"
  shows "scat_inv cap (cs @ gate_contribs n m targets col (Complex re im))
           (scatter_rows n m targets col re im a)"
proof -
  let ?step = "\<lambda>row. let tIdx = targets ! row; gIdx = (row * n + col) * 2
                 in scatter_row tIdx re im (m ! gIdx) (m ! (gIdx + 1))"
  let ?c = "\<lambda>row. (targets ! row, Complex re im * mat_entry m n row col)"
  have "k \<le> n \<Longrightarrow> scat_inv cap (cs @ map ?c [0..<k]) (fold ?step [0..<k] a)" for k
  proof (induction k)
    case 0
    then show ?case using inv by simp
  next
    case (Suc k)
    let ?a = "fold ?step [0..<k] a"
    from Suc have ih: "scat_inv cap (cs @ map ?c [0..<k]) ?a" by simp
    from scat_inv_nextCount [OF ih] Suc.prems room have "nextCount ?a < cap" by simp
    then have "scat_inv cap ((cs @ map ?c [0..<k]) @ [?c k]) (?step k ?a)"
      using scatter_row_inv [OF ih] by (simp add: Let_def mat_entry_def)
    then show ?case by simp
  qed
  then show ?thesis
    by (simp add: scatter_rows_def gate_contribs_def)
qed

lemma scatter_fold_inv:
  assumes "scat_inv cap [] a"
    and "\<And>i a. i < n \<Longrightarrow> scat_inv cap (concat (map f [0..<i])) a \<Longrightarrow>
                 scat_inv cap (concat (map f [0..<Suc i])) (body i a)"
  shows "scat_inv cap (concat (map f [0..<n])) (fold body [0..<n] a)"
  using assms(2) by (induction n) (auto simp: assms(1))

lemma out_view_amp:
  assumes inv: "scat_inv cap cs a" and rng: "\<forall>t \<in> fst ` set cs. u64 t = t"
  shows "amp_of (out_view a) = amp_of cs"
proof
  fix j
  let ?m = "collisionMap a" and ?n = "nextCount a"
  let ?g = "\<lambda>t. the (?m t)"
  have fin: "finite (dom ?m)" using inv by (simp add: scat_inv_def slots_inv_def)
  from inv have inj: "inj_on ?m (dom ?m)" and ran: "ran ?m = {..<?n}"
    unfolding scat_inv_def slots_inv_def by blast+
  from inj have "inj_on ?g (dom ?m)" by (auto simp: inj_on_def dom_def)
  moreover have "?g ` dom ?m = {..<?n}" using ran by (simp add: ran_eq_image_dom)
  ultimately have bij: "bij_betw ?g (dom ?m) {..<?n}" by (simp add: bij_betw_def)
  have pt: "idxOut a ! ?g t = t \<and> slot_amp (ampOut a) (?g t) = amp_of cs t"
    if "t \<in> dom ?m" for t
  proof -
    from that obtain b where b: "?m t = Some b" by auto
    with inv have "idxOut a ! b = u64 t" and "slot_amp (ampOut a) b = amp_of cs t"
      by (auto simp: scat_inv_def slots_inv_def)
    moreover from that inv rng have "u64 t = t" by (auto simp: scat_inv_def slots_inv_def)
    ultimately show ?thesis using b by simp
  qed
  have "amp_of (out_view a) j =
        (\<Sum>b<?n. if idxOut a ! b = j then slot_amp (ampOut a) b else 0)"
    by (simp add: out_view_def view_def amp_of_def sum_list_map_upt_sum)
  also have "\<dots> = (\<Sum>t\<in>dom ?m. if idxOut a ! ?g t = j then slot_amp (ampOut a) (?g t) else 0)"
    using sum.reindex_bij_betw [OF bij, symmetric] by simp
  also have "\<dots> = (\<Sum>t\<in>dom ?m. if t = j then amp_of cs t else 0)"
    by (intro sum.cong refl) (metis pt)
  also have "\<dots> = (if j \<in> dom ?m then amp_of cs j else 0)"
    using fin by (simp add: sum.delta)
  also have "\<dots> = amp_of cs j"
    using inv amp_of_notin [of j cs] by (simp add: scat_inv_def slots_inv_def)
  finally show "amp_of (out_view a) j = amp_of cs j" .
qed

lemma out_view_distinct:
  assumes inv: "scat_inv cap cs a" and rng: "\<forall>t \<in> fst ` set cs. u64 t = t"
  shows "distinct (map fst (out_view a))"
proof -
  let ?m = "collisionMap a"
  have key: "\<exists>t. ?m t = Some b \<and> idxOut a ! b = t" if "b < nextCount a" for b
  proof -
    from that inv have "b \<in> ran ?m" by (simp add: scat_inv_def slots_inv_def)
    then obtain t where "?m t = Some b" by (auto simp: ran_def)
    with inv rng show ?thesis by (force simp: scat_inv_def slots_inv_def)
  qed
  show ?thesis
    unfolding out_view_def view_def
    by (auto simp: distinct_conv_nth dest!: key)
qed

lemma out_view_u64:
  assumes inv: "scat_inv cap cs a"
  shows "\<forall>(i, z) \<in> set (out_view a). u64 i = i"
proof -
  have "u64 (idxOut a ! b) = idxOut a ! b" if "b < nextCount a" for b
  proof -
    from that inv have "b \<in> ran (collisionMap a)" by (simp add: scat_inv_def slots_inv_def)
    then obtain t where "collisionMap a t = Some b" by (auto simp: ran_def)
    with inv show ?thesis by (auto simp: scat_inv_def slots_inv_def)
  qed
  then show ?thesis by (auto simp: out_view_def view_def)
qed

section \<open>Lemmas: pruning is a filter\<close>

lemma view_Suc:
  "view idxs amps (Suc n) = view idxs amps n @ [(idxs ! n, slot_amp amps n)]"
  by (simp add: view_def)

lemma view_update_beyond:
  "view (idxs[w := x]) (amps[w * 2 := a, Suc (w * 2) := b]) w = view idxs amps w"
  by (auto simp: view_def slot_amp_def nth_list_update)

lemma slot_amp_write:
  assumes "w < length idxs" "length amps = 2 * length idxs"
  shows "slot_amp (amps[w * 2 := a, Suc (w * 2) := b]) w = Complex a b"
  using assms by (simp add: slot_amp_def nth_list_update)

lemma compact_write:
  assumes inv: "compact_inv P g n idxs0 amps0 i (w, idxs, amps)" and i: "i < n"
    and n: "n \<le> length idxs0" and len: "length amps0 = 2 * length idxs0"
    and p: "P (idxs0 ! i, slot_amp amps0 i)" and ab: "Complex a b = g (slot_amp amps0 i)"
  shows "compact_inv P g n idxs0 amps0 (Suc i)
           (Suc w, idxs[w := idxs ! i], amps[w * 2 := a, Suc (w * 2) := b])"
proof -
  from inv have w: "w \<le> i" and li: "length idxs = length idxs0" and la: "length amps = length amps0"
    and v: "view idxs amps w = map (apsnd g) (filter P (view idxs0 amps0 i))"
    and rest: "\<forall>b. i \<le> b \<and> b < n \<longrightarrow> idxs ! b = idxs0 ! b \<and> slot_amp amps b = slot_amp amps0 b"
    by (simp_all add: compact_inv_def)
  have ii: "idxs ! i = idxs0 ! i" using rest i by simp
  have wl: "w < length idxs" using w i n li by simp
  let ?idxs' = "idxs[w := idxs ! i]" and ?amps' = "amps[w * 2 := a, Suc (w * 2) := b]"
  have "view ?idxs' ?amps' (Suc w) = view idxs amps w @ [(idxs0 ! i, g (slot_amp amps0 i))]"
    using view_update_beyond slot_amp_write [OF wl] wl ii li la len ab
    by (simp add: view_Suc)
  moreover have "\<forall>b. Suc i \<le> b \<and> b < n \<longrightarrow> ?idxs' ! b = idxs0 ! b \<and> slot_amp ?amps' b = slot_amp amps0 b"
    using rest w by (auto simp: slot_amp_def nth_list_update)
  ultimately show ?thesis using p v w li la
    by (simp add: compact_inv_def view_Suc)
qed

lemma compact_skip:
  assumes inv: "compact_inv P g n idxs0 amps0 i st" and p: "\<not> P (idxs0 ! i, slot_amp amps0 i)"
  shows "compact_inv P g n idxs0 amps0 (Suc i) st"
  using assms by (auto simp: compact_inv_def view_Suc split: prod.splits)

lemma compact_fold:
  assumes step: "\<And>i st. i < n \<Longrightarrow> compact_inv P g n idxs0 amps0 i st \<Longrightarrow>
                     compact_inv P g n idxs0 amps0 (Suc i) (f i st)"
  shows "compact_inv P g n idxs0 amps0 n (fold f [0..<n] (0, idxs0, amps0))"
proof -
  have "i \<le> n \<Longrightarrow> compact_inv P g n idxs0 amps0 i (fold f [0..<i] (0, idxs0, amps0))" for i
  proof (induction i)
    case 0
    then show ?case by (simp add: compact_inv_def view_def)
  next
    case (Suc i)
    then show ?case using step [of i] by simp
  qed
  then show ?thesis by simp
qed

text \<open>The state a compaction loop over all active entries leaves.\<close>

lemma compact_result:
  assumes b: "buffers_ok s"
    and inv: "compact_inv P g (activeCount s) (indices s) (amplitudes s) (activeCount s) (w, idxs, amps)"
  shows "entries (s\<lparr>indices := idxs, amplitudes := amps, activeCount := w\<rparr>) =
           map (apsnd g) (filter P (entries s))"
    and "buffers_ok (s\<lparr>indices := idxs, amplitudes := amps, activeCount := w\<rparr>)"
  using assms by (simp_all add: compact_inv_def entries_def buffers_ok_def)

lemma prune_step_inv:
  assumes inv: "compact_inv (keep_amp thr) id n idxs0 amps0 i st" and i: "i < n"
    and n: "n \<le> length idxs0" and len: "length amps0 = 2 * length idxs0"
  shows "compact_inv (keep_amp thr) id n idxs0 amps0 (Suc i) (prune_step thr i st)"
proof -
  obtain w idxs amps where st: "st = (w, idxs, amps)" by (cases st)
  from inv st have w: "w \<le> i" and li: "length idxs = length idxs0" and la: "length amps = length amps0"
    and rest: "\<forall>b. i \<le> b \<and> b < n \<longrightarrow> idxs ! b = idxs0 ! b \<and> slot_amp amps b = slot_amp amps0 b"
    by (simp_all add: compact_inv_def)
  have ai: "slot_amp amps i = slot_amp amps0 i" using rest i by simp
  let ?e = "(idxs0 ! i, slot_amp amps0 i)"
  have ab: "Complex (amps ! (i * 2)) (amps ! Suc (i * 2)) = id (slot_amp amps0 i)"
    using ai by (simp add: slot_amp_def)
  have mag: "(amps ! (i * 2))\<^sup>2 + (amps ! (i * 2 + 1))\<^sup>2 = (Re (snd ?e))\<^sup>2 + (Im (snd ?e))\<^sup>2"
    using arg_cong [OF ai, of Re] arg_cong [OF ai, of Im] by (simp add: slot_amp_def)
  have wl: "Suc (i * 2) < length amps" using i n la len by simp
  have same: "(Suc i, idxs[i := idxs ! i], amps[i * 2 := amps ! (i * 2), Suc (i * 2) := amps ! Suc (i * 2)])
      = (Suc i, idxs, amps)" by simp
  note wr = compact_write [where g = id, OF inv [unfolded st] i n len _ ab]
  show ?thesis
  proof (cases "keep_amp thr ?e")
    case False
    then show ?thesis using compact_skip [OF inv] mag st
      by (simp add: prune_step_def keep_amp_def Let_def)
  next
    case True
    then show ?thesis using wr same mag st
      by (cases "w = i") (simp_all add: prune_step_def keep_amp_def Let_def)
  qed
qed

lemma prune_entries:
  assumes b: "buffers_ok s"
  shows "entries (prune s) = filter (keep_amp (prune_threshold s)) (entries s)"
    and "buffers_ok (prune s)"
proof -
  let ?n = "activeCount s"
  obtain w idxs amps where f: "fold (prune_step (prune_threshold s)) [0..<?n] (0, indices s, amplitudes s)
      = (w, idxs, amps)" by (metis prod.exhaust)
  have "compact_inv (keep_amp (prune_threshold s)) id ?n (indices s) (amplitudes s) ?n (w, idxs, amps)"
    unfolding f [symmetric] using b
    by (intro compact_fold prune_step_inv) (simp_all add: buffers_ok_def)
  note r = compact_result [OF b this]
  have p: "prune s = s\<lparr>indices := idxs, amplitudes := amps, activeCount := w\<rparr>"
    using f by (simp add: prune_def)
  show "entries (prune s) = filter (keep_amp (prune_threshold s)) (entries s)"
    using r(1) p by simp
  show "buffers_ok (prune s)" using r(2) p by simp
qed

lemma prune_sparse_ok:
  assumes "sparse_ok s"
  shows "sparse_ok (prune s)"
proof -
  have b: "buffers_ok s" using assms by (simp add: sparse_ok_def)
  show ?thesis
    using assms prune_entries [OF b]
    by (auto simp: sparse_ok_def distinct_map_filter)
qed

lemma memoryBudget_prune [simp]: "memoryBudget (prune s) = memoryBudget s"
  by (simp add: prune_def split: prod.split)

lemma amp_of_filter_distinct:
  assumes "distinct (map fst es)"
  shows "amp_of (filter (keep_amp thr) es) = prune_amp thr (amp_of es)"
proof
  fix j show "amp_of (filter (keep_amp thr) es) j = prune_amp thr (amp_of es) j"
    using assms
  proof (induction es)
    case Nil
    then show ?case by (simp add: prune_amp_def)
  next
    case (Cons e es)
    obtain i z where e: "e = (i, z)" by (cases e)
    show ?case
    proof (cases "i = j")
      case True
      with Cons.prems e have "j \<notin> fst ` set es" by auto
      then have "amp_of es j = 0" "amp_of (filter (keep_amp thr) es) j = 0"
        by (auto intro!: amp_of_notin)
      moreover have "keep_amp thr (i, z) \<longleftrightarrow> thr \<le> (Re z)\<^sup>2 + (Im z)\<^sup>2"
        by (simp add: keep_amp_def)
      ultimately show ?thesis using True e by (simp add: prune_amp_def)
    next
      case False
      then show ?thesis using Cons e by (simp add: prune_amp_def)
    qed
  qed
qed

section \<open>Lemmas: the initial state and the prune threshold\<close>

lemma Simulator_sparse_ok: "sparse_ok (Simulator qs nm eps r)"
  by (simp add: Simulator_def sparse_ok_def buffers_ok_def entries_def view_def u64_def)

lemma Simulator_entries: "entries (Simulator qs nm eps r) = [(0, 1)]"
  by (simp add: Simulator_def entries_def view_def slot_amp_def one_complex.code)

lemma Simulator_amp: "amp_of (entries (Simulator qs nm eps r)) = (\<lambda>j. if j = 0 then 1 else 0)"
  by (auto simp: Simulator_def entries_def view_def slot_amp_def complex_eq_iff)

lemma prune_threshold_bounds:
  assumes "activeCount t \<le> n" and "memoryBudget t = b" and "0 < b"
  shows "prune_base \<le> prune_threshold t"
    and "prune_threshold t \<le> prune_base * max 1 (real n / real b)"
proof -
  have pb: "0 < prune_base" by (simp add: prune_base_def)
  show "prune_base \<le> prune_threshold t" using pb by (simp add: prune_threshold_def)
  have "real (activeCount t) / real b \<le> real n / real b"
    using assms by (simp add: divide_right_mono)
  then show "prune_threshold t \<le> prune_base * max 1 (real n / real b)"
    using pb assms(2) by (simp add: prune_threshold_def mult_left_mono)
qed

lemma fold_upd_None:
  "fold (\<lambda>(q, i) m. m(q \<mapsto> i)) xs m0 q = None \<longleftrightarrow> m0 q = None \<and> q \<notin> fst ` set xs"
  by (induction xs arbitrary: m0) (auto split: if_splits)

lemma position_map_None: "position_map qs q = None \<longleftrightarrow> q \<notin> set qs"
proof -
  have "fst ` set (zip qs [0..<length qs]) = set qs"
    by (metis length_upt map_fst_zip minus_nat.diff_0 set_map)
  then show ?thesis by (simp add: position_map_def fold_upd_None)
qed

lemma fold_upd_map_of:
  "fold (\<lambda>(q, i) m. m(q \<mapsto> i)) xs m0 = m0 ++ map_of (rev xs)"
  by (induction xs arbitrary: m0) (auto simp: map_add_def fun_eq_iff split: option.splits)

lemma position_map_Some:
  assumes "distinct qs"
  shows "position_map qs q = Some i \<longleftrightarrow> i < length qs \<and> qs ! i = q"
proof -
  have d: "distinct (map fst (rev (zip qs [0..<length qs])))"
    using assms by (simp add: rev_map [symmetric])
  have "position_map qs = map_of (rev (zip qs [0..<length qs]))"
    by (simp add: position_map_def fold_upd_map_of)
  also have "\<dots> = map_of (zip qs [0..<length qs])"
    using d assms by (subst map_of_inject_set) (simp_all add: rev_map [symmetric])
  finally have pm: "position_map qs = map_of (zip qs [0..<length qs])" .
  show ?thesis
  proof
    assume "position_map qs q = Some i"
    then have "(q, i) \<in> set (zip qs [0..<length qs])" using pm map_of_SomeD by metis
    then show "i < length qs \<and> qs ! i = q" by (auto simp: set_zip)
  next
    assume "i < length qs \<and> qs ! i = q"
    then show "position_map qs q = Some i"
      using pm assms map_of_zip_nth [of qs "[0..<length qs]" i] by simp
  qed
qed


end
