(* ===== verification/Circuit.thy ===== *)
theory Circuit
  imports Gates
begin

text \<open>
  Part P3, the IR buffer (\<open>src/unnamed/part_004\<close>, \<open>compiler/ir-generator.js\<close>,
  class \<open>Circuit\<close>): an append-only list of instruction nodes. A node is
  \<open>{gate, qubit, params, condition, body, timestamp}\<close>; its \<open>qubit\<close> is a handle, an
  array of handles, or \<open>null\<close> (IF and WHILE). The timestamp (\<open>Date.now()\<close>) is written
  and never read, so it is left out. Objects the transpiler builds carry no
  \<open>condition\<close>/\<open>body\<close> (undefined), which every reader treats as \<open>null\<close>, and a
  missing \<open>params\<close> is read as \<open>[]\<close> everywhere (\<open>op.params || []\<close>, and the
  optimizer's identity test returns false for both).
\<close>

datatype qref = QOne qubit | QList "qubit list" | QNull

datatype instr =
  Instr (gate: gname) (qubit: qref) (params: "real list")
        (condition: "(qubit \<times> int) option") (body: "instr list option")

record circuit =
  ops :: "instr list"

definition new_circuit :: circuit where
  "new_circuit = \<lparr>ops = []\<rparr>"

text \<open>
  \<open>addOp(gate, qubit, options)\<close>: \<open>options.params || []\<close>, \<open>options.condition || null\<close>,
  \<open>options.body || null\<close>; the node is pushed at the end.
\<close>

definition addOp :: "gname \<Rightarrow> qref \<Rightarrow> real list \<Rightarrow> (qubit \<times> int) option \<Rightarrow> instr list option
    \<Rightarrow> circuit \<Rightarrow> circuit" where
  "addOp g q ps cond bdy c = c\<lparr>ops := ops c @ [Instr g q ps cond bdy]\<rparr>"

definition clear :: "circuit \<Rightarrow> circuit" where
  "clear c = c\<lparr>ops := []\<rparr>"

text \<open>\<open>Object.freeze([...this.#ops])\<close>: a copy, so later appends do not show through.\<close>

definition getInstructions :: "circuit \<Rightarrow> instr list" where
  "getInstructions c = ops c"

text \<open>The qubits an instruction names, as \<open>Array.isArray(op.qubit) ? op.qubit : [op.qubit]\<close>;
  \<open>None\<close> is \<open>null\<close>.\<close>

fun qref_list :: "qref \<Rightarrow> qubit option list" where
  "qref_list (QOne q) = [Some q]"
| "qref_list (QList qs) = map Some qs"
| "qref_list QNull = [None]"

end
