(* ===== verification/Simulator.thy ===== *)
theory Simulator
  imports Sparse_State Circuit
begin

text \<open>
  Part P2, second part: the operations of class \<open>Simulator\<close>
  (\<open>src/src/core/simulator.js\<close>). Every method that can throw returns
  \<open>error + _\<close>; \<open>measure_sim\<close> (source \<open>measure\<close>) returns the outcome with the new state. \<open>run\<close> is the
  interpreter of an instruction list; a WHILE whose guard never changes does not
  return, so \<open>run\<close> is a \<open>partial_function (option)\<close> whose \<open>None\<close> is divergence.
\<close>

section \<open>Gate application\<close>

subsection \<open>One qubit: \<open>applyGate\<close>\<close>

text \<open>The body of the entry loop for a matrix gate (lines 227--253).\<close>

definition apply1_entry :: "real list \<Rightarrow> bigint \<Rightarrow> bigint \<Rightarrow> real \<Rightarrow> real \<Rightarrow> scatter \<Rightarrow> scatter" where
  "apply1_entry matrix targetBit idx re im a =
     (let isBitSet = (idx AND targetBit \<noteq> 0);
          base = idx AND NOT targetBit;
          col = (if isBitSet then 1 else 0);
          targets = [base, base OR targetBit]
      in scatter_rows 2 matrix targets col re im a)"

text \<open>The Z fast path (lines 213--224): a sign flip through \<open>#accumulate\<close>.\<close>

definition applyZ_entry :: "bigint \<Rightarrow> bigint \<Rightarrow> real \<Rightarrow> real \<Rightarrow> scatter \<Rightarrow> scatter" where
  "applyZ_entry targetBit idx re im a =
     (let sign = (if idx AND targetBit \<noteq> 0 then -1 else 1)
      in accumulate_next idx (re * sign) (im * sign) a)"

text \<open>
  \<open>applyGate(gateName, qubitId, params)\<close>. A name without a matrix fails at the first
  \<open>matrix[gIdx]\<close>, that is only when there is an active entry.
\<close>

definition applyGate :: "gname \<Rightarrow> qubit \<Rightarrow> real list \<Rightarrow> sim \<Rightarrow> error + sim" where
  "applyGate gateName qubitId ps s =
     (case qubit_bit s qubitId of
        Inl e \<Rightarrow> Inl e
      | Inr targetBit \<Rightarrow>
          (let s1 = ensureCapacity (activeCount s * 2) s in
           if gateName = Z then
             Inr (prune (scatter_commit s1 (scatter_all (applyZ_entry targetBit) s1 (scatter_init s1))))
           else
             (case GATES gateName ps of
                None \<Rightarrow>
                  if activeCount s1 = 0 then Inr (prune (scatter_commit s1 (scatter_init s1)))
                  else Inl TypeError
              | Some matrix \<Rightarrow>
                  Inr (prune (scatter_commit s1
                    (scatter_all (apply1_entry matrix targetBit) s1 (scatter_init s1)))))))"

subsection \<open>Two qubits: \<open>apply2QubitGate\<close>\<close>

text \<open>
  The body of the entry loop (lines 279--331): CZ is a sign flip, CNOT and SWAP are
  index permutations, both through \<open>#accumulate\<close>; any other gate scatters into four rows.
\<close>

definition apply2_entry :: "gname \<Rightarrow> real list \<Rightarrow> bigint \<Rightarrow> bigint \<Rightarrow> bigint \<Rightarrow> real \<Rightarrow> real
    \<Rightarrow> scatter \<Rightarrow> scatter" where
  "apply2_entry gateName matrix bit1 bit2 idx re im a =
     (let mask = bit1 OR bit2 in
      if gateName = CZ then
        (let sign = (if idx AND mask = mask then -1 else 1)
         in accumulate_next idx (re * sign) (im * sign) a)
      else if gateName = CNOT \<or> gateName = SWAP then
        (let nextIdx =
           (if gateName = CNOT then (if idx AND bit1 \<noteq> 0 then idx XOR bit2 else idx)
            else if (idx AND bit1 \<noteq> 0) \<noteq> (idx AND bit2 \<noteq> 0) then idx XOR mask else idx)
         in accumulate_next nextIdx re im a)
      else
        (let col = (if idx AND bit1 \<noteq> 0 then 2 else 0) OR (if idx AND bit2 \<noteq> 0 then 1 else 0);
             base = idx AND NOT mask;
             offsets = [0, bit2, bit1, mask]
         in scatter_rows 4 matrix (map (\<lambda>off. base OR off) offsets) col re im a))"

definition apply2QubitGate :: "gname \<Rightarrow> qubit \<Rightarrow> qubit \<Rightarrow> real list \<Rightarrow> sim \<Rightarrow> error + sim" where
  "apply2QubitGate gateName q1 q2 ps s =
     (case qubit_bit s q1 of
        Inl e \<Rightarrow> Inl e
      | Inr bit1 \<Rightarrow>
          (case qubit_bit s q2 of
             Inl e \<Rightarrow> Inl e
           | Inr bit2 \<Rightarrow>
               (let s1 = ensureCapacity (activeCount s * 4) s in
                case GATES gateName ps of
                  None \<Rightarrow>
                    if activeCount s1 = 0 then Inr (prune (scatter_commit s1 (scatter_init s1)))
                    else Inl TypeError
                | Some matrix \<Rightarrow>
                    Inr (prune (scatter_commit s1
                      (scatter_all (apply2_entry gateName matrix bit1 bit2) s1 (scatter_init s1)))))))"

subsection \<open>Three qubits: \<open>apply3QubitGate\<close>\<close>

definition apply3_entry :: "real list \<Rightarrow> bigint \<Rightarrow> bigint \<Rightarrow> bigint \<Rightarrow> bigint \<Rightarrow> real \<Rightarrow> real
    \<Rightarrow> scatter \<Rightarrow> scatter" where
  "apply3_entry matrix bit1 bit2 bit3 idx re im a =
     (let mask = bit1 OR bit2 OR bit3;
          col = (if idx AND bit1 \<noteq> 0 then 4 else 0) OR (if idx AND bit2 \<noteq> 0 then 2 else 0)
                OR (if idx AND bit3 \<noteq> 0 then 1 else 0);
          base = idx AND NOT mask;
          offsets = [0, bit3, bit2, bit2 OR bit3, bit1, bit1 OR bit3, bit1 OR bit2, mask]
      in scatter_rows 8 matrix (map (\<lambda>off. base OR off) offsets) col re im a)"

definition apply3QubitGate :: "gname \<Rightarrow> qubit \<Rightarrow> qubit \<Rightarrow> qubit \<Rightarrow> real list \<Rightarrow> sim \<Rightarrow> error + sim" where
  "apply3QubitGate gateName q1 q2 q3 ps s =
     (case qubit_bit s q1 of
        Inl e \<Rightarrow> Inl e
      | Inr bit1 \<Rightarrow>
          (case qubit_bit s q2 of
             Inl e \<Rightarrow> Inl e
           | Inr bit2 \<Rightarrow>
               (case qubit_bit s q3 of
                  Inl e \<Rightarrow> Inl e
                | Inr bit3 \<Rightarrow>
                    (let s1 = ensureCapacity (activeCount s * 8) s in
                     case GATES gateName ps of
                       None \<Rightarrow>
                         if activeCount s1 = 0 then Inr (prune (scatter_commit s1 (scatter_init s1)))
                         else Inl TypeError
                     | Some matrix \<Rightarrow>
                         Inr (prune (scatter_commit s1
                           (scatter_all (apply3_entry matrix bit1 bit2 bit3) s1 (scatter_init s1))))))))"

section \<open>Probability, collapse and measurement\<close>

text \<open>\<open>#getProb1\<close>: the squared magnitudes of the entries whose target bit is set.\<close>

definition getProb1 :: "sim \<Rightarrow> qubit \<Rightarrow> error + real" where
  "getProb1 s qubitId =
     (case qubit_bit s qubitId of
        Inl e \<Rightarrow> Inl e
      | Inr target \<Rightarrow>
          Inr (fold (\<lambda>i prob1.
                  if indices s ! i AND target \<noteq> 0
                  then prob1 + ((amplitudes s ! (i * 2))\<^sup>2 + (amplitudes s ! (i * 2 + 1))\<^sup>2)
                  else prob1)
                [0..<activeCount s] 0))"

text \<open>One iteration of the compaction loop of \<open>#collapse\<close>.\<close>

definition collapse_step :: "bigint \<Rightarrow> int \<Rightarrow> real \<Rightarrow> nat \<Rightarrow> nat \<times> int list \<times> real list
    \<Rightarrow> nat \<times> int list \<times> real list" where
  "collapse_step target result nrm i st =
     (let (writeIdx, idxs, amps) = st;
          isBitSet = (idxs ! i AND target \<noteq> 0)
      in if (result = 1 \<and> isBitSet) \<or> (result = 0 \<and> \<not> isBitSet) then
           (Suc writeIdx, idxs[writeIdx := idxs ! i],
            amps[writeIdx * 2 := amps ! (i * 2) / nrm, writeIdx * 2 + 1 := amps ! (i * 2 + 1) / nrm])
         else st)"

text \<open>
  \<open>#collapse(qubitId, result, prob1)\<close>: keep the entries of the outcome, rescaled by the
  square root of the probability the caller passes.
\<close>

definition collapse :: "sim \<Rightarrow> qubit \<Rightarrow> int \<Rightarrow> real \<Rightarrow> error + sim" where
  "collapse s qubitId result prob1 =
     (case qubit_bit s qubitId of
        Inl e \<Rightarrow> Inl e
      | Inr target \<Rightarrow>
          (let nrm = (if result = 1 then sqrt prob1 else sqrt (1 - prob1));
               (writeIdx, idxs, amps) =
                 fold (collapse_step target result nrm) [0..<activeCount s] (0, indices s, amplitudes s)
           in Inr (s\<lparr>indices := idxs, amplitudes := amps, activeCount := writeIdx\<rparr>)))"

text \<open>
  \<open>measure(qubitId)\<close>: with a noise profile, one draw decides whether \<open>p\<^sub>1\<close> is inverted
  (readout error); a second draw samples the outcome; the state collapses with the
  (possibly inverted) probability.
\<close>

definition measure_sim :: "sim \<Rightarrow> qubit \<Rightarrow> error + int \<times> sim" where
  "measure_sim s qubitId =
     (case getProb1 s qubitId of
        Inl e \<Rightarrow> Inl e
      | Inr p \<Rightarrow>
          (let (flip, s1) =
             (case noiseModel s of
                None \<Rightarrow> (False, s)
              | Some nm \<Rightarrow> (let (r, s') = random s in (r < readoutError nm, s')));
               prob1 = (if flip then 1 - p else p);
               (u, s2) = random s1;
               result = (if u < prob1 then 1 else 0)
           in case collapse s2 qubitId result prob1 of
                Inl e \<Rightarrow> Inl e
              | Inr s3 \<Rightarrow> Inr (result, s3)))"

text \<open>\<open>#getEffectiveEpsilon\<close> and \<open>isZero(qubitId)\<close>.\<close>

definition getEffectiveEpsilon :: "sim \<Rightarrow> real" where
  "getEffectiveEpsilon s =
     (case epsilon s of
        Some e \<Rightarrow> e
      | None \<Rightarrow> prune_threshold s * 100)"

definition isZero :: "sim \<Rightarrow> qubit \<Rightarrow> error + bool" where
  "isZero s qubitId =
     (case getProb1 s qubitId of
        Inl e \<Rightarrow> Inl e
      | Inr p \<Rightarrow> Inr (p < getEffectiveEpsilon s))"

definition getResult :: "sim \<Rightarrow> qubit \<Rightarrow> int option" where
  "getResult s qubitId = results s qubitId"

section \<open>Noise\<close>

text \<open>\<open>#normalize\<close>: divide every active amplitude by the norm.\<close>

definition normalize :: "sim \<Rightarrow> sim" where
  "normalize s =
     (let normSq = fold (\<lambda>i acc. acc + ((amplitudes s ! (i * 2))\<^sup>2 + (amplitudes s ! (i * 2 + 1))\<^sup>2))
                      [0..<activeCount s] 0;
          nrm = sqrt normSq
      in s\<lparr>amplitudes := fold (\<lambda>i amps. amps[i * 2 := amps ! (i * 2) / nrm,
                                             i * 2 + 1 := amps ! (i * 2 + 1) / nrm])
                            [0..<activeCount s] (amplitudes s)\<rparr>)"

text \<open>\<open>for (...) this.#indices[i] ^= bit\<close>.\<close>

definition xor_active :: "bigint \<Rightarrow> sim \<Rightarrow> sim" where
  "xor_active qbit s =
     s\<lparr>indices := fold (\<lambda>i idxs. idxs[i := u64 (idxs ! i XOR qbit)]) [0..<activeCount s] (indices s)\<rparr>"

text \<open>Multiply the amplitudes of the active entries whose bit is set by a factor.\<close>

definition scale_set :: "bigint \<Rightarrow> real \<Rightarrow> sim \<Rightarrow> sim" where
  "scale_set qbit f s =
     s\<lparr>amplitudes := fold (\<lambda>i amps. if indices s ! i AND qbit \<noteq> 0
                                     then amps[i * 2 := amps ! (i * 2) * f, i * 2 + 1 := amps ! (i * 2 + 1) * f]
                                     else amps)
                          [0..<activeCount s] (amplitudes s)\<rparr>"

text \<open>The channel on one target qubit (lines 79--118).\<close>

definition noise_qubit :: "noise_model \<Rightarrow> qubit \<Rightarrow> sim \<Rightarrow> error + sim" where
  "noise_qubit nm q s =
     (case qubit_bit s q of
        Inl e \<Rightarrow> Inl e
      | Inr qbit \<Rightarrow>
          (let (r, s1) = random s;
               s2 = (if r < gateError nm then xor_active qbit s1 else s1);
               (r2, s3) = random s2;
               s4 = (if r2 < t2 nm then scale_set qbit (-1) s3 else s3)
           in if 0 < t1 nm then
                (case getProb1 s4 q of
                   Inl e \<Rightarrow> Inl e
                 | Inr p1 \<Rightarrow>
                     (let jumpProb = t1 nm * p1; (r3, s5) = random s4 in
                      if r3 < jumpProb then
                        (case collapse s5 q 1 p1 of
                           Inl e \<Rightarrow> Inl e
                         | Inr s6 \<Rightarrow> Inr (xor_active qbit s6))
                      else Inr (normalize (scale_set qbit (sqrt (1 - t1 nm)) s5))))
              else Inr s4))"

fun noise_all :: "noise_model \<Rightarrow> qubit list \<Rightarrow> sim \<Rightarrow> error + sim" where
  "noise_all nm [] s = Inr s"
| "noise_all nm (q # qs) s = (case noise_qubit nm q s of Inl e \<Rightarrow> Inl e | Inr s' \<Rightarrow> noise_all nm qs s')"

text \<open>\<open>#applyStochasticNoise(qubit)\<close>: once per target qubit, in order.\<close>

definition applyStochasticNoise :: "qref \<Rightarrow> sim \<Rightarrow> error + sim" where
  "applyStochasticNoise qr s =
     (case noiseModel s of
        None \<Rightarrow> Inl TypeError
      | Some nm \<Rightarrow>
          (case qr of
             QOne q \<Rightarrow> noise_all nm [q] s
           | QList qs \<Rightarrow> noise_all nm qs s
           | QNull \<Rightarrow> Inl TypeError))"

section \<open>The interpreter\<close>

text \<open>
  One non-control instruction of \<open>run\<close> (lines 144--190): dispatch on the arity of
  \<open>op.qubit\<close>, then RESET (measure, X on outcome 1, prune), MEASURE (measure, cache the
  outcome, prune), or a one-qubit gate; every gate but RESET and MEASURE is followed by
  the noise channel and a prune when a profile is present.
\<close>

definition exec_op :: "sim \<Rightarrow> instr \<Rightarrow> error + sim" where
  "exec_op s op =
     (let ps = params op;
          applied =
            (case qubit op of
               QList qs \<Rightarrow>
                 (if length qs = 3 then map_sum id (Pair True) (apply3QubitGate (gate op) (qs ! 0) (qs ! 1) (qs ! 2) ps s)
                  else (case qs of
                          q1 # q2 # _ \<Rightarrow> map_sum id (Pair True) (apply2QubitGate (gate op) q1 q2 ps s)
                        | _ \<Rightarrow> Inl TypeError))
             | QOne q \<Rightarrow>
                 (if gate op = RESET then
                    (case measure_sim s q of
                       Inl e \<Rightarrow> Inl e
                     | Inr (res, s1) \<Rightarrow>
                         (if res = 1 then
                            (case applyGate X q [] s1 of Inl e \<Rightarrow> Inl e | Inr s2 \<Rightarrow> Inr (False, prune s2))
                          else Inr (False, prune s1)))
                  else if gate op = MEASURE then
                    (case measure_sim s q of
                       Inl e \<Rightarrow> Inl e
                     | Inr (res, s1) \<Rightarrow> Inr (False, prune (s1\<lparr>results := (results s1)(q \<mapsto> res)\<rparr>)))
                  else map_sum id (Pair True) (applyGate (gate op) q ps s))
             | QNull \<Rightarrow> Inl TypeError)
      in case applied of
           Inl e \<Rightarrow> Inl e
         | Inr (noisy, s') \<Rightarrow>
             (if noisy \<and> noiseModel s' \<noteq> None then
                (case applyStochasticNoise (qubit op) s' of Inl e \<Rightarrow> Inl e | Inr s'' \<Rightarrow> Inr (prune s''))
              else Inr s'))"

text \<open>
  \<open>run(instructions)\<close>. IF runs its body once when the cached result of the condition
  qubit equals the expected value; WHILE re-checks before every iteration; an absent
  cached result never equals a value. A missing condition or body is a TypeError.
\<close>

partial_function (option) run :: "sim \<Rightarrow> instr list \<Rightarrow> (error + sim) option" where
  "run s instructions =
     (case instructions of
        [] \<Rightarrow> Some (Inr s)
      | op # rest \<Rightarrow>
          (if gate op = IF then
             (case condition op of
                None \<Rightarrow> Some (Inl TypeError)
              | Some (cq, v) \<Rightarrow>
                  (if results s cq = Some v then
                     (case body op of
                        None \<Rightarrow> Some (Inl TypeError)
                      | Some b \<Rightarrow>
                          Option.bind (run s b)
                            (\<lambda>r. case r of Inl e \<Rightarrow> Some (Inl e) | Inr s' \<Rightarrow> run s' rest))
                   else run s rest))
           else if gate op = WHILE then
             (case condition op of
                None \<Rightarrow> Some (Inl TypeError)
              | Some (cq, v) \<Rightarrow>
                  (if results s cq = Some v then
                     (case body op of
                        None \<Rightarrow> Some (Inl TypeError)
                      | Some b \<Rightarrow>
                          Option.bind (run s b)
                            (\<lambda>r. case r of Inl e \<Rightarrow> Some (Inl e) | Inr s' \<Rightarrow> run s' instructions))
                   else run s rest))
           else
             (case exec_op s op of
                Inl e \<Rightarrow> Some (Inl e)
              | Inr s' \<Rightarrow> run s' rest)))"

end
