(* ===== verification/Semantics.thy ===== *)
theory Semantics
  imports Gates
begin

text \<open>
  The abstract specification the simulator is proved against: a quantum state is a
  function from basis indices to complex amplitudes (\<open>qstate\<close>), and a gate given by a
  catalog matrix acts on the bits of the indices. A one-qubit matrix acting on bit mask
  \<open>tb = 2^k\<close> maps amplitude pairs \<open>(j, j + 2^k)\<close> (bit \<open>k\<close> clear, set) by the
  \<open>2 \<times> 2\<close> matrix, row and column 0 standing for the clear bit.
\<close>

definition gate1 :: "real list \<Rightarrow> bigint \<Rightarrow> qstate \<Rightarrow> qstate" where
  "gate1 m tb \<psi> j =
     (if j AND tb \<noteq> 0
      then mat_entry m 2 1 0 * \<psi> (j AND NOT tb) + mat_entry m 2 1 1 * \<psi> j
      else mat_entry m 2 0 0 * \<psi> j + mat_entry m 2 0 1 * \<psi> (j OR tb))"

text \<open>
  Gates on several qubits. The qubits are given by their bit positions \<open>ks\<close>, the first
  one the most significant bit of the matrix index (\<open>q1\<close> of \<open>apply2QubitGate\<close>).
  \<open>col_of ks j\<close> is the matrix column of basis index \<open>j\<close>, \<open>offset ks r\<close> the bits of matrix
  row \<open>r\<close> placed at the positions, and \<open>set_field ks j r\<close> the index \<open>j\<close> with its bits at
  the positions replaced by row \<open>r\<close>. \<open>gateN\<close> is the matrix action.
\<close>

fun offset :: "nat list \<Rightarrow> nat \<Rightarrow> int" where
  "offset [] r = 0"
| "offset (k # ks) r = (if bit r (length ks) then 2 ^ k else 0) OR offset ks r"

fun col_of :: "nat list \<Rightarrow> int \<Rightarrow> nat" where
  "col_of [] j = 0"
| "col_of (k # ks) j = (if bit j k then 2 ^ length ks else 0) + col_of ks j"

fun maskN :: "nat list \<Rightarrow> int" where
  "maskN [] = 0"
| "maskN (k # ks) = 2 ^ k OR maskN ks"

definition set_field :: "nat list \<Rightarrow> int \<Rightarrow> nat \<Rightarrow> int" where
  "set_field ks j r = (j AND NOT (maskN ks)) OR offset ks r"

definition gateN :: "real list \<Rightarrow> nat list \<Rightarrow> qstate \<Rightarrow> qstate" where
  "gateN m ks \<psi> j =
     (\<Sum>c<2 ^ length ks. mat_entry m (2 ^ length ks) (col_of ks j) c * \<psi> (set_field ks j c))"

lemma gate1_add: "gate1 m tb (\<lambda>j. \<phi> j + \<psi> j) = (\<lambda>j. gate1 m tb \<phi> j + gate1 m tb \<psi> j)"
  by (auto simp: gate1_def algebra_simps)

lemma gate1_zero: "gate1 m tb (\<lambda>j. 0) = (\<lambda>j. 0)"
  by (auto simp: gate1_def)

subsection \<open>Bit fields\<close>

lemma bit_maskN: "bit (maskN ks) p \<longleftrightarrow> p \<in> set ks"
  by (induction ks) (auto simp: bit_simps)

lemma bit_offset:
  "bit (offset ks r) p \<longleftrightarrow> (\<exists>i<length ks. ks ! i = p \<and> bit r (length ks - 1 - i))"
proof (induction ks)
  case Nil
  then show ?case by simp
next
  case (Cons k ks)
  have "(\<exists>i<length (k # ks). (k # ks) ! i = p \<and> bit r (length (k # ks) - 1 - i)) \<longleftrightarrow>
        (k = p \<and> bit r (length ks)) \<or> (\<exists>i<length ks. ks ! i = p \<and> bit r (length ks - 1 - i))"
    by (auto simp: less_Suc_eq_0_disj)
  then show ?case using Cons by (auto simp: bit_simps)
qed

lemma col_of_less: "col_of ks j < 2 ^ length ks"
  by (induction ks) auto

lemma bit_col_of:
  "bit (col_of ks j) q \<longleftrightarrow> q < length ks \<and> bit j (ks ! (length ks - 1 - q))"
proof (induction ks)
  case Nil
  then show ?case by simp
next
  case (Cons k ks)
  let ?m = "length ks"
  have lt: "col_of ks j < 2 ^ ?m" by (rule col_of_less)
  have tb: "take_bit ?m (col_of ks j) = col_of ks j" using lt by (simp add: take_bit_nat_eq_self_iff)
  have hi: "\<not> bit (col_of ks j) n" if "?m \<le> n" for n
    using that tb by (metis bit_take_bit_iff not_le)
  have "bit ((if bit j k then 2 ^ ?m else 0) + col_of ks j) q \<longleftrightarrow>
        (bit j k \<and> q = ?m) \<or> bit (col_of ks j) q"
    using hi by (subst bit_disjunctive_add_iff) (auto simp: bit_simps)
  then show ?case using Cons
    by (auto simp: less_Suc_eq nth_Cons' not_less)
qed

lemma bit_offset_in:
  assumes "distinct ks" and "i < length ks"
  shows "bit (offset ks r) (ks ! i) \<longleftrightarrow> bit r (length ks - 1 - i)"
  using assms by (auto simp: bit_offset nth_eq_iff_index_eq)

lemma bit_offset_out: "p \<notin> set ks \<Longrightarrow> \<not> bit (offset ks r) p"
  by (auto simp: bit_offset)

lemma bit_set_field_in:
  assumes "distinct ks" and "i < length ks"
  shows "bit (set_field ks j r) (ks ! i) \<longleftrightarrow> bit r (length ks - 1 - i)"
  using assms by (simp add: set_field_def bit_simps bit_maskN bit_offset_in)

lemma bit_set_field_out: "p \<notin> set ks \<Longrightarrow> bit (set_field ks j r) p \<longleftrightarrow> bit j p"
  by (simp add: set_field_def bit_simps bit_maskN bit_offset_out)

lemma nat_less_exp_bit: "(r::nat) < 2 ^ n \<Longrightarrow> bit r q \<Longrightarrow> q < n"
  by (metis bit_take_bit_iff take_bit_nat_eq_self_iff)

lemma col_of_set_field:
  assumes d: "distinct ks" and r: "r < 2 ^ length ks"
  shows "col_of ks (set_field ks j r) = r"
proof (rule bit_eqI)
  fix q
  show "bit (col_of ks (set_field ks j r)) q \<longleftrightarrow> bit r q"
  proof (cases "q < length ks")
    case True
    then have "bit (set_field ks j r) (ks ! (length ks - 1 - q)) \<longleftrightarrow> bit r q"
      using bit_set_field_in [OF d, of "length ks - 1 - q" j r] by simp
    with True show ?thesis by (simp add: bit_col_of)
  next
    case False
    then show ?thesis using nat_less_exp_bit [OF r] by (auto simp: bit_col_of)
  qed
qed

lemma set_field_col_of:
  assumes d: "distinct ks"
  shows "set_field ks j (col_of ks j) = j"
proof (rule bit_eqI)
  fix p
  show "bit (set_field ks j (col_of ks j)) p \<longleftrightarrow> bit j p"
  proof (cases "p \<in> set ks")
    case True
    then obtain i where i: "i < length ks" "p = ks ! i" by (auto simp: in_set_conv_nth)
    moreover have "length ks - Suc i < length ks" using i(1) by arith
    ultimately show ?thesis
      using bit_set_field_in [OF d i(1), of j "col_of ks j"] by (simp add: bit_col_of)
  next
    case False
    then show ?thesis by (rule bit_set_field_out)
  qed
qed

lemma set_field_base: "set_field ks j r AND NOT (maskN ks) = j AND NOT (maskN ks)"
  by (rule bit_eqI) (auto simp: set_field_def bit_simps bit_maskN bit_offset_out)

lemma set_field_eq_iff:
  assumes d: "distinct ks" and r: "r < 2 ^ length ks"
  shows "set_field ks i r = j \<longleftrightarrow>
           i AND NOT (maskN ks) = j AND NOT (maskN ks) \<and> r = col_of ks j"
proof
  assume eq: "set_field ks i r = j"
  show "i AND NOT (maskN ks) = j AND NOT (maskN ks) \<and> r = col_of ks j"
    using set_field_base [of ks i r] col_of_set_field [OF d r, of i] eq by simp
next
  assume "i AND NOT (maskN ks) = j AND NOT (maskN ks) \<and> r = col_of ks j"
  then have "set_field ks i r = set_field ks j (col_of ks j)" by (simp add: set_field_def)
  then show "set_field ks i r = j" using set_field_col_of [OF d] by simp
qed

end
