(* ===== verification/Simulator_Gates.thy ===== *)
theory Simulator_Gates
  imports Simulator Semantics
begin

text \<open>
  Proofs about the gate application of \<open>Simulator\<close>: the collision-map scatter of
  \<open>applyGate\<close> computes the abstract one-qubit action \<open>gate1\<close>, keeps the sparse
  invariant, and never writes past the capacity \<open>#ensureCapacity\<close> provides.
\<close>

text \<open>What one source entry \<open>(idx, z)\<close> sends to the destination rows of a one-qubit gate.\<close>

definition contribs1 :: "real list \<Rightarrow> bigint \<Rightarrow> int \<times> complex \<Rightarrow> (int \<times> complex) list" where
  "contribs1 m tb e = (let (idx, z) = e; base = idx AND NOT tb in
     gate_contribs 2 m [base, base OR tb] (if idx AND tb \<noteq> 0 then 1 else 0) z)"

lemma amp_of_single: "amp_of [(i, z)] j = (if i = j then z else 0)"
  by (simp add: amp_of_def)

lemma amp_of_concat_map:
  "amp_of (concat (map f es)) j = (\<Sum>e\<leftarrow>es. amp_of (f e) j)"
  by (induction es) auto

lemma amp_of_as_sum:
  "amp_of es j = (\<Sum>e\<leftarrow>es. amp_of [e] j)"
  by (induction es) (auto simp: amp_of_def)

lemma gate1_sum_list:
  "gate1 m tb (\<lambda>j. \<Sum>e\<leftarrow>es. f e j) j = (\<Sum>e\<leftarrow>es. gate1 m tb (f e) j)"
  by (induction es) (auto simp: gate1_def algebra_simps)

lemma contribs1_eq:
  "contribs1 m tb (i, z) =
     [(i AND NOT tb, z * mat_entry m 2 0 (if i AND tb \<noteq> 0 then 1 else 0)),
      ((i AND NOT tb) OR tb, z * mat_entry m 2 1 (if i AND tb \<noteq> 0 then 1 else 0))]"
  by (simp add: contribs1_def gate_contribs_def numeral_2_eq_2 Let_def)

lemma length_contribs1 [simp]: "length (contribs1 m tb e) = 2"
  by (cases e) (simp add: contribs1_eq)

lemma contribs1_single:
  fixes tb :: int
  assumes tb: "tb = 2 ^ k"
  shows "amp_of (contribs1 m tb (i, z)) j = gate1 m tb (amp_of [(i, z)]) j"
proof (cases "bit j k")
  case True
  have j: "(j AND tb \<noteq> 0)" using True tb by (simp add: and_exp_nonzero_iff)
  have ne: "i AND NOT tb \<noteq> j" using True tb by (simp add: clear_ne_set)
  have eq: "(i AND NOT tb) OR tb = j \<longleftrightarrow> (i = j \<or> i = j AND NOT tb)"
    using True tb by (simp add: set_clear_eq_iff)
  have bi: "(i AND tb \<noteq> 0) = bit i k" using tb by (simp add: and_exp_nonzero_iff)
  have ij: "i = j AND NOT tb \<Longrightarrow> \<not> bit i k" using tb by (simp add: bit_simps)
  show ?thesis
    using j ne eq bi ij True
    by (auto simp: contribs1_eq gate1_def amp_of_single)
next
  case False
  have j: "\<not> (j AND tb \<noteq> 0)" using False tb by (simp add: and_exp_nonzero_iff)
  have ne: "(i AND NOT tb) OR tb \<noteq> j" using False tb by (simp add: set_ne_clear)
  have eq: "i AND NOT tb = j \<longleftrightarrow> (i = j \<or> i = j OR tb)"
    using False tb by (simp add: clear_eq_iff)
  have bi: "(i AND tb \<noteq> 0) = bit i k" using tb by (simp add: and_exp_nonzero_iff)
  have ij: "i = j OR tb \<Longrightarrow> bit i k" using tb by (simp add: bit_simps)
  show ?thesis
    using j ne eq bi ij False
    by (auto simp: contribs1_eq gate1_def amp_of_single)
qed

lemma length_concat_contribs1: "length (concat (map (contribs1 m tb) es)) = 2 * length es"
  by (induction es) auto

lemma contribs1_gate1:
  assumes "tb = 2 ^ k"
  shows "amp_of (concat (map (contribs1 m tb) es)) = gate1 m tb (amp_of es)"
proof
  fix j
  have "amp_of (concat (map (contribs1 m tb) es)) j = (\<Sum>e\<leftarrow>es. amp_of (contribs1 m tb e) j)"
    by (rule amp_of_concat_map)
  also have "\<dots> = (\<Sum>e\<leftarrow>es. gate1 m tb (amp_of [e]) j)"
    using contribs1_single [OF assms] by (metis prod.exhaust)
  also have "\<dots> = gate1 m tb (\<lambda>j. \<Sum>e\<leftarrow>es. amp_of [e] j) j"
    by (rule gate1_sum_list [symmetric])
  also have "(\<lambda>j. \<Sum>e\<leftarrow>es. amp_of [e] j) = amp_of es"
    by (rule ext) (rule amp_of_as_sum [symmetric])
  finally show "amp_of (concat (map (contribs1 m tb) es)) j = gate1 m tb (amp_of es) j" .
qed

lemma contribs1_keys:
  assumes "\<forall>(i, z) \<in> set es. u64 i = i" and "k < 64"
  shows "\<forall>t \<in> fst ` set (concat (map (contribs1 m (2 ^ k)) es)). u64 t = t"
  using assms u64_clear_set by (fastforce simp: contribs1_eq)

lemma view_append_zeros:
  assumes "n \<le> length idx" and "length amps = 2 * length idx"
  shows "view (idx @ zs) (amps @ ws) n = view idx amps n"
  using assms by (auto simp: view_def slot_amp_def nth_append)

lemma ensureCapacity_buffers:
  assumes "buffers_ok s"
  shows "buffers_ok (ensureCapacity r s)"
    and "entries (ensureCapacity r s) = entries s"
    and "r \<le> length (indices (ensureCapacity r s))"
    and "activeCount (ensureCapacity r s) = activeCount s"
    and "qubitMap (ensureCapacity r s) = qubitMap s"
    and "memoryBudget (ensureCapacity r s) = memoryBudget s"
  using assms
  by (auto simp: ensureCapacity_def buffers_ok_def entries_def Let_def view_append_zeros)

lemma apply1_loop_inv:
  assumes cap: "2 * activeCount s \<le> cap"
    and len: "length (indicesAux s) = cap" "length (amplitudesAux s) = 2 * cap"
  shows "scat_inv cap (concat (map (contribs1 m tb) (entries s)))
           (scatter_all (apply1_entry m tb) s (scatter_init s))"
proof -
  let ?f = "\<lambda>i. contribs1 m tb (indices s ! i, slot_amp (amplitudes s) i)"
  have "scat_inv cap (concat (map ?f [0..<activeCount s]))
          (fold (\<lambda>i. apply1_entry m tb (indices s ! i) (amplitudes s ! (i * 2)) (amplitudes s ! (i * 2 + 1)))
                [0..<activeCount s] (scatter_init s))"
  proof (rule scatter_fold_inv)
    show "scat_inv cap [] (scatter_init s)" using len by (rule scat_inv_init)
  next
    fix i a
    assume i: "i < activeCount s" and inv: "scat_inv cap (concat (map ?f [0..<i])) a"
    have "length (concat (map ?f [0..<i])) = 2 * i" by (induction i) auto
    with i cap have "length (concat (map ?f [0..<i])) + 2 \<le> cap" by simp
    from scatter_rows_inv [OF inv this]
    show "scat_inv cap (concat (map ?f [0..<Suc i]))
            (apply1_entry m tb (indices s ! i) (amplitudes s ! (i * 2)) (amplitudes s ! (i * 2 + 1)) a)"
      by (simp add: apply1_entry_def contribs1_def slot_amp_def Let_def)
  qed
  then show ?thesis
    by (simp add: scatter_all_def entries_def view_def comp_def)
qed

lemma scat_inv_cap:
  assumes inv: "scat_inv cap cs a"
  shows "nextCount a \<le> cap"
proof (cases "nextCount a")
  case (Suc n)
  then have "n \<in> ran (collisionMap a)" using inv by (simp add: scat_inv_def slots_inv_def)
  then obtain t where "collisionMap a t = Some n" by (auto simp: ran_def)
  with inv have "n < cap" unfolding scat_inv_def slots_inv_def by blast
  with Suc show ?thesis by simp
qed simp

lemma scatter_commit_ok:
  assumes b: "buffers_ok s" and inv: "scat_inv (length (indices s)) cs a"
    and rng: "\<forall>t \<in> fst ` set cs. u64 t = t"
  shows "sparse_ok (scatter_commit s a)"
    and "amp_of (entries (scatter_commit s a)) = amp_of cs"
    and "memoryBudget (scatter_commit s a) = memoryBudget s"
proof -
  have e: "entries (scatter_commit s a) = out_view a"
    by (simp add: scatter_commit_def swapBuffers_def entries_def out_view_def)
  have lens: "length (idxOut a) = length (indices s)" "length (ampOut a) = 2 * length (indices s)"
    using inv unfolding scat_inv_def slots_inv_def by simp_all
  have "nextCount a \<le> length (indices s)" using inv by (rule scat_inv_cap)
  note lens = lens this
  show "sparse_ok (scatter_commit s a)"
    using b lens out_view_distinct [OF inv rng] out_view_u64 [OF inv] e
    by (simp add: sparse_ok_def buffers_ok_def scatter_commit_def swapBuffers_def)
  show "amp_of (entries (scatter_commit s a)) = amp_of cs"
    using e out_view_amp [OF inv rng] by simp
  show "memoryBudget (scatter_commit s a) = memoryBudget s"
    by (simp add: scatter_commit_def swapBuffers_def)
qed

lemma scatter_prune:
  assumes b: "buffers_ok s1" and inv: "scat_inv (length (indices s1)) cs a"
    and rng: "\<forall>t \<in> fst ` set cs. u64 t = t" and cnt: "length cs \<le> n"
  shows "\<exists>thr. sparse_ok (prune (scatter_commit s1 a)) \<and> prune_base \<le> thr \<and>
     thr \<le> prune_base * max 1 (real n / real (memoryBudget s1)) \<and>
     amp_of (entries (prune (scatter_commit s1 a))) = prune_amp thr (amp_of cs)"
proof -
  let ?t = "scatter_commit s1 a"
  note ok = scatter_commit_ok [OF b inv rng]
  have bt: "buffers_ok ?t" using ok(1) by (simp add: sparse_ok_def)
  have "activeCount ?t \<le> n"
    using scat_inv_nextCount [OF inv] cnt by (simp add: scatter_commit_def swapBuffers_def)
  moreover have "0 < memoryBudget s1" using b by (simp add: buffers_ok_def)
  note bnd = prune_threshold_bounds [OF calculation(1) ok(3) this]
  have "amp_of (entries (prune ?t)) = prune_amp (prune_threshold ?t) (amp_of (entries ?t))"
    using prune_entries(1) [OF bt] amp_of_filter_distinct ok(1) by (simp add: sparse_ok_def)
  then show ?thesis
    using ok(2) prune_sparse_ok [OF ok(1)] bnd by auto
qed

text \<open>The facts about the matrix path of \<open>applyGate\<close> before its commit.\<close>

lemma apply1_scatter:
  fixes mat :: "real list" and k :: nat and s :: sim
  assumes ok: "sparse_ok s" and k: "k < 64"
  defines "s1 \<equiv> ensureCapacity (activeCount s * 2) s"
  defines "cs \<equiv> concat (map (contribs1 mat (2 ^ k)) (entries s1))"
  shows "buffers_ok s1" and "memoryBudget s1 = memoryBudget s"
    and "scat_inv (length (indices s1)) cs
           (scatter_all (apply1_entry mat (2 ^ k)) s1 (scatter_init s1))"
    and "\<forall>t \<in> fst ` set cs. u64 t = t" and "length cs = 2 * activeCount s"
    and "amp_of cs = gate1 mat (2 ^ k) (amp_of (entries s))"
proof -
  have b: "buffers_ok s" using ok by (simp add: sparse_ok_def)
  note ec = ensureCapacity_buffers [OF b, of "activeCount s * 2", folded s1_def]
  show b1: "buffers_ok s1" and "memoryBudget s1 = memoryBudget s" by (fact ec(1), fact ec(6))
  show "scat_inv (length (indices s1)) cs (scatter_all (apply1_entry mat (2 ^ k)) s1 (scatter_init s1))"
    unfolding cs_def using b1 ec(3,4) by (intro apply1_loop_inv) (simp_all add: buffers_ok_def)
  show "\<forall>t \<in> fst ` set cs. u64 t = t"
    unfolding cs_def using ok ec(2) k by (intro contribs1_keys) (simp_all add: sparse_ok_def)
  have "length cs = 2 * length (entries s)"
    unfolding cs_def by (simp only: length_concat_contribs1 ec(2))
  then show "length cs = 2 * activeCount s" by (simp add: entries_def view_def)
  show "amp_of cs = gate1 mat (2 ^ k) (amp_of (entries s))"
    unfolding cs_def using contribs1_gate1 [of "2 ^ k" k mat] ec(2) by simp
qed

text \<open>The sign-flip and permutation paths: one \<open>#accumulate\<close> per entry, no new indices.\<close>

lemma of_real_mult_Complex: "of_real c * Complex a b = Complex (a * c) (b * c)"
  by (simp add: complex_eq_iff)

lemma diag_loop_inv:
  assumes cap: "activeCount s \<le> cap"
    and len: "length (indicesAux s) = cap" "length (amplitudesAux s) = 2 * cap"
    and inj: "distinct (map (f \<circ> fst) (entries s))"
  shows "scat_inv cap (map (\<lambda>(i, z). (f i, of_real (sg i) * z)) (entries s))
           (scatter_all (\<lambda>idx re im. accumulate_next (f idx) (re * sg idx) (im * sg idx)) s (scatter_init s))"
proof -
  let ?e = "\<lambda>i. (indices s ! i, slot_amp (amplitudes s) i)"
  let ?g = "\<lambda>i. [(f (indices s ! i), of_real (sg (indices s ! i)) * slot_amp (amplitudes s) i)]"
  have d: "distinct (map (\<lambda>i. f (indices s ! i)) [0..<activeCount s])"
    using inj by (simp add: entries_def view_def comp_def)
  have "scat_inv cap (concat (map ?g [0..<activeCount s]))
          (fold (\<lambda>i. accumulate_next (f (indices s ! i)) (amplitudes s ! (i * 2) * sg (indices s ! i))
                     (amplitudes s ! (i * 2 + 1) * sg (indices s ! i)))
                [0..<activeCount s] (scatter_init s))"
  proof (rule scatter_fold_inv)
    show "scat_inv cap [] (scatter_init s)" using len by (rule scat_inv_init)
  next
    fix i a
    assume i: "i < activeCount s" and inv: "scat_inv cap (concat (map ?g [0..<i])) a"
    have keys: "fst ` set (concat (map ?g [0..<i])) = (\<lambda>b. f (indices s ! b)) ` {..<i}"
      by (force simp: image_iff)
    have "f (indices s ! i) \<notin> fst ` set (concat (map ?g [0..<i]))"
      using d i unfolding keys by (auto simp: distinct_conv_nth)
    moreover have "nextCount a < cap"
      using scat_inv_nextCount [OF inv] i cap by (simp add: length_concat)
    ultimately show "scat_inv cap (concat (map ?g [0..<Suc i]))
            (accumulate_next (f (indices s ! i)) (amplitudes s ! (i * 2) * sg (indices s ! i))
                     (amplitudes s ! (i * 2 + 1) * sg (indices s ! i)) a)"
      using accumulate_next_inv [OF inv] by (simp add: slot_amp_def of_real_mult_Complex)
  qed
  then show ?thesis
    by (simp add: scatter_all_def entries_def view_def comp_def concat_map_singleton)
qed

lemma amp_of_perm_scale:
  assumes "\<And>x. f (f x) = x"
  shows "amp_of (map (\<lambda>(i, z). (f i, of_real (sg i) * z)) es) j = of_real (sg (f j)) * amp_of es (f j)"
proof -
  have "\<And>i. (f i = j) = (i = f j)" using assms by metis
  then show ?thesis by (induction es) (auto simp: algebra_simps)
qed

lemma gate1_Z: "gate1 Z_mat tb \<psi> j = (if j AND tb \<noteq> 0 then - \<psi> j else \<psi> j)"
  by (simp add: gate1_def mat_entry_def Z_mat_def complex_eq_iff)

lemma applyZ_entry_eq:
  "applyZ_entry tb = (\<lambda>idx re im. accumulate_next idx (re * (if idx AND tb \<noteq> 0 then -1 else 1))
                                                  (im * (if idx AND tb \<noteq> 0 then -1 else 1)))"
  by (simp add: applyZ_entry_def fun_eq_iff)

text \<open>
  The facts about a sign-flip or permutation path before its commit: every entry
  \<open>(i, z)\<close> is accumulated once, at index \<open>f i\<close> with the real factor \<open>sg i\<close>, where \<open>f\<close>
  is an involution of the 64-bit indices (the identity for Z and CZ, a bit flip for CNOT,
  a bit exchange for SWAP).
\<close>

lemma perm_scatter:
  fixes s :: sim and c :: nat and f :: "int \<Rightarrow> int" and sg :: "int \<Rightarrow> real"
  assumes ok: "sparse_ok s" and inv: "\<And>x. f (f x) = x" and rng: "\<And>i. u64 i = i \<Longrightarrow> u64 (f i) = f i"
  defines "s1 \<equiv> ensureCapacity (activeCount s * c) s"
  defines "cs \<equiv> map (\<lambda>(i, z). (f i, of_real (sg i) * z)) (entries s1)"
  shows "buffers_ok s1" and "memoryBudget s1 = memoryBudget s"
    and "scat_inv (length (indices s1)) cs
           (scatter_all (\<lambda>idx re im. accumulate_next (f idx) (re * sg idx) (im * sg idx)) s1 (scatter_init s1))"
    and "\<forall>t \<in> fst ` set cs. u64 t = t" and "length cs \<le> activeCount s"
    and "amp_of cs j = of_real (sg (f j)) * amp_of (entries s) (f j)"
proof -
  have b: "buffers_ok s" using ok by (simp add: sparse_ok_def)
  note ec = ensureCapacity_buffers [OF b, of "activeCount s * c", folded s1_def]
  show b1: "buffers_ok s1" and "memoryBudget s1 = memoryBudget s" by (fact ec(1), fact ec(6))
  have "inj f" using inv by (metis injI)
  then have "distinct (map (f \<circ> fst) (entries s1))"
    using ok ec(2) by (simp add: sparse_ok_def distinct_map inj_on_subset [of f UNIV] flip: map_map)
  then show "scat_inv (length (indices s1)) cs
           (scatter_all (\<lambda>idx re im. accumulate_next (f idx) (re * sg idx) (im * sg idx)) s1 (scatter_init s1))"
    unfolding cs_def using b1 by (intro diag_loop_inv) (simp_all add: buffers_ok_def)
  show "\<forall>t \<in> fst ` set cs. u64 t = t" using ok ec(2) rng by (auto simp: sparse_ok_def cs_def)
  show "length cs \<le> activeCount s" using ec(2) by (simp add: entries_def view_def cs_def)
  show "amp_of cs j = of_real (sg (f j)) * amp_of (entries s) (f j)"
    unfolding cs_def ec(2) by (rule amp_of_perm_scale [OF inv])
qed

text \<open>The facts about the sign-flip path of \<open>applyGate Z\<close> before its commit.\<close>

lemma applyZ_scatter:
  fixes s :: sim and k :: nat
  assumes ok: "sparse_ok s"
  defines "sg \<equiv> \<lambda>idx. if idx AND 2 ^ k \<noteq> 0 then -1 else (1::real)"
  defines "s1 \<equiv> ensureCapacity (activeCount s * 2) s"
  defines "cs \<equiv> map (\<lambda>(i, z). (i, of_real (sg i) * z)) (entries s1)"
  shows "buffers_ok s1" and "memoryBudget s1 = memoryBudget s"
    and "scat_inv (length (indices s1)) cs (scatter_all (applyZ_entry (2 ^ k)) s1 (scatter_init s1))"
    and "\<forall>t \<in> fst ` set cs. u64 t = t" and "length cs \<le> activeCount s"
    and "amp_of cs = gate1 Z_mat (2 ^ k) (amp_of (entries s))"
proof -
  note b = perm_scatter(1,2) [OF ok, where f = "\<lambda>x. x" and c = 2, OF refl asm_rl, folded s1_def]
  note p = perm_scatter(3-6) [OF ok, where f = "\<lambda>x. x" and sg = sg and c = 2, OF refl asm_rl, folded s1_def cs_def]
  show "buffers_ok s1" "memoryBudget s1 = memoryBudget s" "\<forall>t \<in> fst ` set cs. u64 t = t"
    "length cs \<le> activeCount s" using b p(2,3) by (simp_all add: cs_def)
  show "scat_inv (length (indices s1)) cs (scatter_all (applyZ_entry (2 ^ k)) s1 (scatter_init s1))"
    using p(1) by (simp add: applyZ_entry_eq sg_def cs_def)
  show "amp_of cs = gate1 Z_mat (2 ^ k) (amp_of (entries s))"
    using p(4) by (auto simp: gate1_Z fun_eq_iff sg_def cs_def)
qed

section \<open>One-qubit gates\<close>

text \<open>
  C1. Applying a catalog one-qubit gate \<open>g\<close> (not the \<open>Z\<close> fast path) to a mapped qubit
  \<open>k < 64\<close> of a well-formed sparse state succeeds, leaves a well-formed sparse state, and
  the new amplitudes are the matrix action \<open>gate1\<close> on bit \<open>2^k\<close> of the old ones, with
  every amplitude whose squared magnitude is below the prune threshold dropped; the
  threshold is at least \<open>1e-15\<close> and grows only with the over-budget factor.
\<close>

theorem applyGate_refines:
  assumes "sparse_ok s" and "qubitMap s q = Some k" and "k < 64" and "g \<noteq> Z"
    and "GATES g ps = Some mat"
  shows "\<exists>s' thr. applyGate g q ps s = Inr s' \<and> sparse_ok s' \<and>
     prune_base \<le> thr \<and> thr \<le> prune_base * max 1 (real (2 * activeCount s) / real (memoryBudget s)) \<and>
     amp_of (entries s') = prune_amp thr (gate1 mat (2 ^ k) (amp_of (entries s)))"
proof -
  let ?s1 = "ensureCapacity (activeCount s * 2) s"
  let ?a = "scatter_all (apply1_entry mat (2 ^ k)) ?s1 (scatter_init ?s1)"
  note f = apply1_scatter [OF assms(1,3)]
  have "applyGate g q ps s = Inr (prune (scatter_commit ?s1 ?a))"
    using assms(2,4,5) by (simp add: applyGate_def qubit_bit_def Let_def)
  with scatter_prune [OF f(1,3,4) eq_imp_le [OF f(5)]] f(2,6) show ?thesis by auto
qed

theorem applyGate_refines_witness:
  "\<exists>s' thr. applyGate H 0 [] (Simulator [0] None None (\<lambda>_. 0)) = Inr s' \<and> sparse_ok s' \<and>
     prune_base \<le> thr \<and> thr \<le> prune_base \<and> amp_of (entries s') =
       prune_amp thr (gate1 H_mat 1 (\<lambda>j. if j = 0 then 1 else 0))"
proof -
  let ?s0 = "Simulator [0] None None (\<lambda>_. 0)"
  have q: "qubitMap ?s0 0 = Some 0" by (simp add: Simulator_def position_map_def)
  have c: "activeCount ?s0 = 1" "memoryBudget ?s0 = 5000" by (simp_all add: Simulator_def)
  have "\<exists>s' thr. applyGate H 0 [] ?s0 = Inr s' \<and> sparse_ok s' \<and>
     prune_base \<le> thr \<and> thr \<le> prune_base * max 1 (real (2 * activeCount ?s0) / real (memoryBudget ?s0)) \<and>
     amp_of (entries s') = prune_amp thr (gate1 H_mat (2 ^ 0) (amp_of (entries ?s0)))"
    by (rule applyGate_refines [OF Simulator_sparse_ok q]) simp_all
  then show ?thesis by (simp only: c Simulator_amp) simp
qed

text \<open>
  C2. The \<open>Z\<close> fast path of \<open>applyGate\<close> (a sign flip of the entries with the target bit
  set, through \<open>#accumulate\<close>) is equivalent to applying the catalog matrix \<open>GATES.Z\<close>:
  on a well-formed sparse state and a mapped qubit it succeeds, keeps the invariant and
  yields \<open>gate1 Z_mat\<close> of the old amplitudes, cut at the prune threshold. No bound on
  the qubit position is needed, since no index changes.
\<close>

theorem applyGate_Z_refines:
  assumes ok: "sparse_ok s" and q: "qubitMap s q = Some k"
  shows "\<exists>s' thr. applyGate Z q ps s = Inr s' \<and> sparse_ok s' \<and>
     prune_base \<le> thr \<and> thr \<le> prune_base * max 1 (real (activeCount s) / real (memoryBudget s)) \<and>
     amp_of (entries s') = prune_amp thr (gate1 Z_mat (2 ^ k) (amp_of (entries s)))"
proof -
  let ?s1 = "ensureCapacity (activeCount s * 2) s"
  let ?a = "scatter_all (applyZ_entry (2 ^ k)) ?s1 (scatter_init ?s1)"
  note b = applyZ_scatter(1,2) [OF ok]
  note f = applyZ_scatter(3-6) [OF ok, where k = k]
  have "applyGate Z q ps s = Inr (prune (scatter_commit ?s1 ?a))"
    using q by (simp add: applyGate_def qubit_bit_def Let_def)
  with scatter_prune [OF b(1) f(1,2,3)] b(2) f(4) show ?thesis by auto
qed

theorem applyGate_Z_refines_witness:
  "\<exists>s' thr. applyGate Z 0 [] (Simulator [0] None None (\<lambda>_. 0)) = Inr s' \<and> sparse_ok s' \<and>
     prune_base \<le> thr \<and> thr \<le> prune_base \<and> amp_of (entries s') =
       prune_amp thr (gate1 Z_mat 1 (\<lambda>j. if j = 0 then 1 else 0))"
proof -
  let ?s0 = "Simulator [0] None None (\<lambda>_. 0)"
  have q: "qubitMap ?s0 0 = Some 0" by (simp add: Simulator_def position_map_def)
  have c: "activeCount ?s0 = 1" "memoryBudget ?s0 = 5000" by (simp_all add: Simulator_def)
  have "\<exists>s' thr. applyGate Z 0 [] ?s0 = Inr s' \<and> sparse_ok s' \<and>
     prune_base \<le> thr \<and> thr \<le> prune_base * max 1 (real (activeCount ?s0) / real (memoryBudget ?s0)) \<and>
     amp_of (entries s') = prune_amp thr (gate1 Z_mat (2 ^ 0) (amp_of (entries ?s0)))"
    by (rule applyGate_Z_refines [OF Simulator_sparse_ok q])
  then show ?thesis by (simp only: c Simulator_amp) simp
qed

end
