(* ===== verification/Simulator_Measure.thy ===== *)
theory Simulator_Measure
  imports Simulator_Gates
begin

text \<open>
  Proofs about \<open>measure_sim\<close>, \<open>#getProb1\<close> and \<open>#collapse\<close> of \<open>Simulator\<close>: the probability is
  the squared norm of the entries with the target bit set, a collapse keeps the entries
  of the outcome divided by the square root of the probability passed, and a noiseless
  measurement of a normalised state leaves a normalised state.
\<close>

definition norm_sq :: "complex \<Rightarrow> real" where
  "norm_sq z = (Re z)\<^sup>2 + (Im z)\<^sup>2"

text \<open>The outcome test of \<open>#collapse\<close>: \<open>(result === 1 && isBitSet) || (result === 0 && !isBitSet)\<close>.\<close>

definition outcome :: "bigint \<Rightarrow> int \<Rightarrow> int \<times> complex \<Rightarrow> bool" where
  "outcome target result e \<longleftrightarrow>
     (result = 1 \<and> fst e AND target \<noteq> 0) \<or> (result = 0 \<and> \<not> (fst e AND target \<noteq> 0))"

definition prob1_of :: "bigint \<Rightarrow> (int \<times> complex) list \<Rightarrow> real" where
  "prob1_of target es = (\<Sum>e\<leftarrow>es. if fst e AND target \<noteq> 0 then norm_sq (snd e) else 0)"

definition total_prob :: "(int \<times> complex) list \<Rightarrow> real" where
  "total_prob es = (\<Sum>e\<leftarrow>es. norm_sq (snd e))"

lemma fold_add_if:
  "fold (\<lambda>i acc. if P i then acc + f i else acc) xs a = a + (\<Sum>i\<leftarrow>xs. if P i then f i else 0)"
  by (induction xs arbitrary: a) (auto simp: add.assoc)

lemma prob1_of_entries:
  "prob1_of target (entries s) =
     (\<Sum>i\<leftarrow>[0..<activeCount s]. if indices s ! i AND target \<noteq> 0
        then (amplitudes s ! (i * 2))\<^sup>2 + (amplitudes s ! (i * 2 + 1))\<^sup>2 else 0)"
  unfolding prob1_of_def entries_def view_def map_map
  by (rule arg_cong [where f = sum_list], rule map_cong) (simp_all add: slot_amp_def norm_sq_def)

lemma getProb1_eq:
  assumes "qubitMap s q = Some k"
  shows "getProb1 s q = Inr (prob1_of (2 ^ k) (entries s))"
  using assms by (simp add: getProb1_def qubit_bit_def fold_add_if prob1_of_entries)

lemma Complex_divide_real: "Complex (a / c) (b / c) = Complex a b / of_real c"
  by (simp add: complex_eq_iff)

lemma collapse_step_inv:
  assumes inv: "compact_inv (outcome target result) (\<lambda>z. z / of_real nrm) n idxs0 amps0 i st"
    and i: "i < n" and n: "n \<le> length idxs0" and len: "length amps0 = 2 * length idxs0"
  shows "compact_inv (outcome target result) (\<lambda>z. z / of_real nrm) n idxs0 amps0 (Suc i)
           (collapse_step target result nrm i st)"
proof -
  obtain w idxs amps where st: "st = (w, idxs, amps)" by (cases st)
  from inv st have rest: "\<forall>b. i \<le> b \<and> b < n \<longrightarrow> idxs ! b = idxs0 ! b \<and> slot_amp amps b = slot_amp amps0 b"
    by (simp add: compact_inv_def)
  have ii: "idxs ! i = idxs0 ! i" and ai: "slot_amp amps i = slot_amp amps0 i" using rest i by simp_all
  have ab: "Complex (amps ! (i * 2) / nrm) (amps ! Suc (i * 2) / nrm) = slot_amp amps0 i / of_real nrm"
    using ai by (simp add: slot_amp_def Complex_divide_real)
  have o: "outcome target result (idxs0 ! i, slot_amp amps0 i) \<longleftrightarrow>
           (result = 1 \<and> idxs ! i AND target \<noteq> 0) \<or> (result = 0 \<and> \<not> (idxs ! i AND target \<noteq> 0))"
    using ii by (simp add: outcome_def)
  show ?thesis
  proof (cases "outcome target result (idxs0 ! i, slot_amp amps0 i)")
    case True
    then have "collapse_step target result nrm i st =
        (Suc w, idxs[w := idxs ! i], amps[w * 2 := amps ! (i * 2) / nrm, Suc (w * 2) := amps ! Suc (i * 2) / nrm])"
      using o st by (simp add: collapse_step_def Let_def)
    then show ?thesis
      using compact_write [where g = "\<lambda>z. z / of_real nrm", OF inv [unfolded st] i n len True ab] by simp
  next
    case False
    then have "collapse_step target result nrm i st = st"
      using o st by (auto simp: collapse_step_def Let_def)
    then show ?thesis using compact_skip [OF inv False] by simp
  qed
qed

lemma collapse_eq:
  fixes result :: int and p :: real
  assumes b: "buffers_ok s" and q: "qubitMap s q = Some k"
  defines "nrm \<equiv> (if result = 1 then sqrt p else sqrt (1 - p))"
  shows "\<exists>s'. collapse s q result p = Inr s' \<and> buffers_ok s' \<and>
     entries s' = map (apsnd (\<lambda>z. z / of_real nrm)) (filter (outcome (2 ^ k) result) (entries s)) \<and>
     s' = s\<lparr>indices := indices s', amplitudes := amplitudes s', activeCount := activeCount s'\<rparr>"
proof -
  let ?n = "activeCount s"
  obtain w idxs amps where f: "fold (collapse_step (2 ^ k) result nrm) [0..<?n] (0, indices s, amplitudes s)
      = (w, idxs, amps)" by (metis prod.exhaust)
  have "compact_inv (outcome (2 ^ k) result) (\<lambda>z. z / of_real nrm) ?n (indices s) (amplitudes s) ?n (w, idxs, amps)"
    unfolding f [symmetric] using b
    by (intro compact_fold collapse_step_inv) (simp_all add: buffers_ok_def)
  note r = compact_result [OF b this]
  have "collapse s q result p = Inr (s\<lparr>indices := idxs, amplitudes := amps, activeCount := w\<rparr>)"
    using q f by (simp add: collapse_def qubit_bit_def nrm_def Let_def)
  with r show ?thesis by auto
qed

lemma sparse_ok_filter_map:
  assumes "sparse_ok s" and "buffers_ok s'"
    and "entries s' = map (apsnd g) (filter P (entries s))"
  shows "sparse_ok s'"
  using assms by (auto simp: sparse_ok_def distinct_map_filter comp_def)

lemma measure_eq:
  assumes ok: "sparse_ok s" and q: "qubitMap s q = Some k"
  defines "p \<equiv> prob1_of (2 ^ k) (entries s)"
  defines "flip \<equiv> (case noiseModel s of None \<Rightarrow> False | Some nm \<Rightarrow> rng s (draws s) < readoutError nm)"
  defines "d \<equiv> (case noiseModel s of None \<Rightarrow> draws s | Some nm \<Rightarrow> Suc (draws s))"
  defines "pr \<equiv> (if flip then 1 - p else p)"
  defines "r \<equiv> (if rng s d < pr then 1 else 0 :: int)"
  shows "\<exists>s'. measure_sim s q = Inr (r, s') \<and> sparse_ok s' \<and>
     entries s' = map (apsnd (\<lambda>z. z / of_real (if r = 1 then sqrt pr else sqrt (1 - pr))))
                    (filter (outcome (2 ^ k) r) (entries s)) \<and>
     s' = s\<lparr>draws := Suc d, indices := indices s', amplitudes := amplitudes s',
            activeCount := activeCount s'\<rparr>"
proof -
  let ?s2 = "s\<lparr>draws := Suc d\<rparr>"
  have b2: "buffers_ok ?s2" using ok by (simp add: sparse_ok_def buffers_ok_def)
  have q2: "qubitMap ?s2 q = Some k" using q by simp
  obtain s' where c: "collapse ?s2 q r pr = Inr s'" and b': "buffers_ok s'"
    and e: "entries s' = map (apsnd (\<lambda>z. z / of_real (if r = 1 then sqrt pr else sqrt (1 - pr))))
                    (filter (outcome (2 ^ k) r) (entries ?s2))"
    and f: "s' = ?s2\<lparr>indices := indices s', amplitudes := amplitudes s', activeCount := activeCount s'\<rparr>"
    using collapse_eq [OF b2 q2, of r pr] by blast
  have es: "entries ?s2 = entries s" by (simp add: entries_def)
  have "measure_sim s q = Inr (r, s')"
  proof (cases "noiseModel s")
    case None
    then show ?thesis using q c
      by (simp add: measure_sim_def getProb1_eq random_def p_def flip_def d_def pr_def r_def Let_def)
  next
    case (Some nm)
    then show ?thesis using q c unfolding p_def flip_def d_def pr_def r_def
      by (simp add: measure_sim_def getProb1_eq random_def Let_def)
  qed
  moreover have "sparse_ok s'" using sparse_ok_filter_map [OF ok b'] e es by simp
  ultimately show ?thesis using e es f by auto
qed

lemma norm_sq_div_real: "norm_sq (z / of_real c) = norm_sq z / c\<^sup>2"
  by (simp add: norm_sq_def Re_divide_of_real Im_divide_of_real power_divide add_divide_distrib)

lemma total_prob_scale:
  "total_prob (map (apsnd (\<lambda>z. z / of_real c)) es) = total_prob es / c\<^sup>2"
  by (induction es) (auto simp: total_prob_def norm_sq_div_real add_divide_distrib)

lemma total_prob_outcome1: "total_prob (filter (outcome tb 1) es) = prob1_of tb es"
  by (induction es) (auto simp: total_prob_def prob1_of_def outcome_def)

lemma total_prob_outcome0: "total_prob (filter (outcome tb 0) es) = total_prob es - prob1_of tb es"
  by (induction es) (auto simp: total_prob_def prob1_of_def outcome_def)

lemma prob1_of_nonneg: "0 \<le> prob1_of tb es"
  by (induction es) (auto simp: prob1_of_def norm_sq_def)

lemma outcome_entries:
  "\<forall>(i, z) \<in> set (map (apsnd g) (filter (outcome tb r) es)). (i AND tb \<noteq> 0) = (r = 1)"
  by (auto simp: outcome_def)

text \<open>
  C3. A measurement without a noise profile, on a well-formed normalised state, with a
  draw \<open>u\<close> of \<open>Math.random()\<close> in \<open>[0, 1)\<close>, reports \<open>1\<close> exactly when \<open>u < p\<^sub>1\<close>, consumes one
  draw, and leaves a well-formed normalised state in which every entry agrees with the
  reported bit.
\<close>

theorem measure_normalised:
  assumes ok: "sparse_ok s" and nm: "noiseModel s = None" and q: "qubitMap s q = Some k"
    and tot: "total_prob (entries s) = 1" and u0: "0 \<le> rng s (draws s)" and u1: "rng s (draws s) < 1"
  shows "\<exists>s'. measure_sim s q =
              Inr (if rng s (draws s) < prob1_of (2 ^ k) (entries s) then 1 else 0, s') \<and>
           sparse_ok s' \<and> total_prob (entries s') = 1 \<and> draws s' = Suc (draws s) \<and>
           (\<forall>(i, z) \<in> set (entries s'). (i AND 2 ^ k \<noteq> 0) = (rng s (draws s) < prob1_of (2 ^ k) (entries s)))"
proof -
  let ?p = "prob1_of (2 ^ k) (entries s)" and ?u = "rng s (draws s)"
  let ?r = "if ?u < ?p then 1 else 0 :: int"
  let ?c = "if ?r = 1 then sqrt ?p else sqrt (1 - ?p)"
  obtain s' where m: "measure_sim s q = Inr (?r, s')" and ok': "sparse_ok s'"
    and e: "entries s' = map (apsnd (\<lambda>z. z / of_real ?c)) (filter (outcome (2 ^ k) ?r) (entries s))"
    and f: "s' = s\<lparr>draws := Suc (draws s), indices := indices s', amplitudes := amplitudes s',
            activeCount := activeCount s'\<rparr>"
    using measure_eq [OF ok q] nm by auto
  have p0: "0 \<le> ?p" by (rule prob1_of_nonneg)
  have "total_prob (entries s') = 1"
  proof (cases "?u < ?p")
    case True
    then have "0 < ?p" using u0 by linarith
    then show ?thesis using True e p0 by (simp add: total_prob_scale total_prob_outcome1)
  next
    case False
    then have "0 < 1 - ?p" using u1 by linarith
    then show ?thesis using False e tot by (simp add: total_prob_scale total_prob_outcome0)
  qed
  moreover have "draws s' = Suc (draws s)" by (subst f) simp
  moreover have "\<forall>(i, z) \<in> set (entries s'). (i AND 2 ^ k \<noteq> 0) = (?u < ?p)"
    using outcome_entries [of _ "2 ^ k" ?r "entries s"] e by auto
  ultimately show ?thesis using m ok' by blast
qed

theorem measure_normalised_witness:
  "\<exists>s'. measure_sim (Simulator [0] None None (\<lambda>_. 0)) 0 = Inr (0, s') \<and>
     sparse_ok s' \<and> total_prob (entries s') = 1 \<and> draws s' = 1 \<and>
     (\<forall>(i, z) \<in> set (entries s'). i AND 1 = 0)"
proof -
  let ?s0 = "Simulator [0] None None (\<lambda>_. 0)"
  have q: "qubitMap ?s0 0 = Some 0" by (simp add: Simulator_def position_map_def)
  have c: "noiseModel ?s0 = None" "rng ?s0 (draws ?s0) = 0" "draws ?s0 = 0"
    by (simp_all add: Simulator_def)
  have t: "total_prob (entries ?s0) = 1" and p: "prob1_of 1 (entries ?s0) = 0"
    by (simp_all add: Simulator_entries total_prob_def prob1_of_def norm_sq_def)
  show ?thesis
    using measure_normalised [OF Simulator_sparse_ok c(1) q] t p c by simp
qed


end
