(* ===== verification/Simulator_Multi.thy ===== *)
theory Simulator_Multi
  imports Simulator_Gates
begin

text \<open>
  Proofs about \<open>apply2QubitGate\<close> and \<open>apply3QubitGate\<close>: the four- and eight-row scatter
  computes the matrix action \<open>gateN\<close> on the gate's bit positions. The CNOT, SWAP and CZ
  fast paths of \<open>apply2QubitGate\<close> are treated in \<open>Simulator_FastPaths\<close>.
\<close>

definition contribsN :: "real list \<Rightarrow> nat list \<Rightarrow> int \<times> complex \<Rightarrow> (int \<times> complex) list" where
  "contribsN m ks e = (let (idx, z) = e in
     gate_contribs (2 ^ length ks) m (map (set_field ks idx) [0..<2 ^ length ks]) (col_of ks idx) z)"

lemma amp_of_gate_contribs:
  "amp_of (gate_contribs n m targets col z) j =
     (\<Sum>r<n. if targets ! r = j then z * mat_entry m n r col else 0)"
  by (simp add: gate_contribs_def amp_of_def comp_def sum_list_map_upt_sum)

lemma contribsN_single:
  assumes d: "distinct ks"
  shows "amp_of (contribsN m ks (i, z)) j = gateN m ks (amp_of [(i, z)]) j"
proof -
  let ?N = "2 ^ length ks :: nat" and ?b = "\<lambda>x. x AND NOT (maskN ks)"
  have cj: "col_of ks j < ?N" and ci: "col_of ks i < ?N" by (simp_all add: col_of_less)
  have e: "(i = set_field ks j c) \<longleftrightarrow> (?b j = ?b i \<and> c = col_of ks i)" if "c < ?N" for c
    using set_field_eq_iff [OF d that, of j i] by auto
  have "amp_of (contribsN m ks (i, z)) j =
        (\<Sum>r<?N. if set_field ks i r = j then z * mat_entry m ?N r (col_of ks i) else 0)"
    by (simp add: contribsN_def amp_of_gate_contribs)
  also have "\<dots> = (\<Sum>r<?N. if r = col_of ks j then
                      (if ?b i = ?b j then z * mat_entry m ?N (col_of ks j) (col_of ks i) else 0) else 0)"
    by (intro sum.cong refl) (auto simp: set_field_eq_iff [OF d])
  also have "\<dots> = (if ?b i = ?b j then z * mat_entry m ?N (col_of ks j) (col_of ks i) else 0)"
    using cj by (simp add: sum.delta)
  also have "\<dots> = (\<Sum>c<?N. if c = col_of ks i then
                      (if ?b i = ?b j then mat_entry m ?N (col_of ks j) c * z else 0) else 0)"
    using ci by (simp add: sum.delta mult.commute)
  also have "\<dots> = (\<Sum>c<?N. mat_entry m ?N (col_of ks j) c * amp_of [(i, z)] (set_field ks j c))"
    by (intro sum.cong refl) (auto simp: amp_of_single e)
  finally show ?thesis by (simp add: gateN_def)
qed

lemma gateN_sum_list:
  "gateN m ks (\<lambda>j. \<Sum>e\<leftarrow>es. f e j) j = (\<Sum>e\<leftarrow>es. gateN m ks (f e) j)"
proof (induction es)
  case Nil
  then show ?case by (simp add: gateN_def)
next
  case (Cons e es)
  then show ?case by (simp add: gateN_def algebra_simps sum.distrib)
qed

lemma contribsN_gateN:
  assumes "distinct ks"
  shows "amp_of (concat (map (contribsN m ks) es)) = gateN m ks (amp_of es)"
proof
  fix j
  have "amp_of (concat (map (contribsN m ks) es)) j = (\<Sum>e\<leftarrow>es. amp_of (contribsN m ks e) j)"
    by (rule amp_of_concat_map)
  also have "\<dots> = (\<Sum>e\<leftarrow>es. gateN m ks (amp_of [e]) j)"
    using contribsN_single [OF assms] by (metis prod.exhaust)
  also have "\<dots> = gateN m ks (\<lambda>j. \<Sum>e\<leftarrow>es. amp_of [e] j) j"
    by (rule gateN_sum_list [symmetric])
  also have "(\<lambda>j. \<Sum>e\<leftarrow>es. amp_of [e] j) = amp_of es"
    by (rule ext) (rule amp_of_as_sum [symmetric])
  finally show "amp_of (concat (map (contribsN m ks) es)) j = gateN m ks (amp_of es) j" .
qed

lemma length_gate_contribs [simp]: "length (gate_contribs n m targets col z) = n"
  by (simp add: gate_contribs_def)

text \<open>The entry loop of a gate that scatters every entry into \<open>n\<close> rows.\<close>

lemma rows_loop_inv:
  assumes cap: "n * activeCount s \<le> cap"
    and len: "length (indicesAux s) = cap" "length (amplitudesAux s) = 2 * cap"
  shows "scat_inv cap (concat (map (\<lambda>(idx, z). gate_contribs n m (tg idx) (cl idx) z) (entries s)))
           (scatter_all (\<lambda>idx re im. scatter_rows n m (tg idx) (cl idx) re im) s (scatter_init s))"
proof -
  let ?f = "\<lambda>i. gate_contribs n m (tg (indices s ! i)) (cl (indices s ! i)) (slot_amp (amplitudes s) i)"
  have "scat_inv cap (concat (map ?f [0..<activeCount s]))
          (fold (\<lambda>i. scatter_rows n m (tg (indices s ! i)) (cl (indices s ! i))
                      (amplitudes s ! (i * 2)) (amplitudes s ! (i * 2 + 1)))
                [0..<activeCount s] (scatter_init s))"
  proof (rule scatter_fold_inv)
    show "scat_inv cap [] (scatter_init s)" using len by (rule scat_inv_init)
  next
    fix i a
    assume i: "i < activeCount s" and inv: "scat_inv cap (concat (map ?f [0..<i])) a"
    have "length (concat (map ?f [0..<i])) = n * i" by (induction i) auto
    moreover have "n * i + n \<le> n * activeCount s" using i
      by (metis Suc_leI mult_Suc_right add.commute mult_le_mono2)
    ultimately have "length (concat (map ?f [0..<i])) + n \<le> cap" using cap by simp
    from scatter_rows_inv [OF inv this]
    show "scat_inv cap (concat (map ?f [0..<Suc i]))
            (scatter_rows n m (tg (indices s ! i)) (cl (indices s ! i))
               (amplitudes s ! (i * 2)) (amplitudes s ! (i * 2 + 1)) a)"
      by (simp add: slot_amp_def)
  qed
  then show ?thesis
    by (simp add: scatter_all_def entries_def view_def comp_def)
qed

lemma offset_nonneg: "0 \<le> offset ks r"
  by (induction ks) auto

lemma set_field_u64:
  assumes "u64 j = j" and "\<forall>k \<in> set ks. k < 64"
  shows "u64 (set_field ks j r) = set_field ks j r"
proof -
  have "0 \<le> j" using assms(1) u64_fixed_bits by blast
  then have "0 \<le> set_field ks j r" by (simp add: set_field_def offset_nonneg)
  moreover have "\<not> bit (set_field ks j r) n" if "64 \<le> n" for n
  proof -
    have "n \<notin> set ks" using assms(2) that by auto
    then show ?thesis using assms(1) that u64_fixed_bits bit_set_field_out by metis
  qed
  ultimately show ?thesis using u64_fixed_bits by blast
qed

lemma contribsN_keys:
  assumes "\<forall>(i, z) \<in> set es. u64 i = i" and "\<forall>k \<in> set ks. k < 64"
  shows "\<forall>t \<in> fst ` set (concat (map (contribsN m ks) es)). u64 t = t"
  using assms set_field_u64 [OF _ assms(2)]
  by (fastforce simp: contribsN_def gate_contribs_def)

lemma length_concat_contribsN:
  "length (concat (map (contribsN m ks) es)) = 2 ^ length ks * length es"
  by (induction es) (auto simp: contribsN_def)

lemma upt_4: "[0..<4] = [0::nat, 1, 2, 3]"
  by (simp add: upt_rec)

lemma upt_8: "[0..<8] = [0::nat, 1, 2, 3, 4, 5, 6, 7]"
  by (simp add: upt_rec)

lemma apply2_entry_generic:
  assumes "g \<noteq> CZ" "g \<noteq> CNOT" "g \<noteq> SWAP"
  shows "apply2_entry g m (2 ^ k1) (2 ^ k2) =
         (\<lambda>idx re im. scatter_rows 4 m (map (set_field [k1, k2] idx) [0..<4]) (col_of [k1, k2] idx) re im)"
proof (intro ext)
  fix idx :: int and re im :: real and a
  have col: "(if idx AND 2 ^ k1 \<noteq> 0 then 2 else 0) OR (if idx AND 2 ^ k2 \<noteq> 0 then 1 else 0) =
             col_of [k1, k2] idx"
    by (simp add: and_exp_nonzero_iff)
  show "apply2_entry g m (2 ^ k1) (2 ^ k2) idx re im a =
        scatter_rows 4 m (map (set_field [k1, k2] idx) [0..<4]) (col_of [k1, k2] idx) re im a"
    using assms col [symmetric] by (simp add: apply2_entry_def set_field_def upt_4 bit_0 Let_def)
qed

text \<open>The facts about an \<open>n\<close>-qubit matrix path before its commit.\<close>

lemma applyN_scatter:
  fixes mat :: "real list" and ks :: "nat list" and s :: sim
  assumes ok: "sparse_ok s" and d: "distinct ks" and r: "\<forall>k \<in> set ks. k < 64"
  defines "s1 \<equiv> ensureCapacity (activeCount s * 2 ^ length ks) s"
  defines "cs \<equiv> concat (map (contribsN mat ks) (entries s1))"
  shows "buffers_ok s1" and "memoryBudget s1 = memoryBudget s"
    and "scat_inv (length (indices s1)) cs
           (scatter_all (\<lambda>idx re im. scatter_rows (2 ^ length ks) mat (map (set_field ks idx) [0..<2 ^ length ks])
                                       (col_of ks idx) re im) s1 (scatter_init s1))"
    and "\<forall>t \<in> fst ` set cs. u64 t = t" and "length cs = 2 ^ length ks * activeCount s"
    and "amp_of cs = gateN mat ks (amp_of (entries s))"
proof -
  have b: "buffers_ok s" using ok by (simp add: sparse_ok_def)
  note ec = ensureCapacity_buffers [OF b, of "activeCount s * 2 ^ length ks", folded s1_def]
  show b1: "buffers_ok s1" and "memoryBudget s1 = memoryBudget s" by (fact ec(1), fact ec(6))
  have cs: "cs = concat (map (\<lambda>(idx, z). gate_contribs (2 ^ length ks) mat (map (set_field ks idx) [0..<2 ^ length ks])
                                         (col_of ks idx) z) (entries s1))"
    unfolding cs_def contribsN_def by (simp add: split_def)
  show "scat_inv (length (indices s1)) cs
           (scatter_all (\<lambda>idx re im. scatter_rows (2 ^ length ks) mat (map (set_field ks idx) [0..<2 ^ length ks])
                                       (col_of ks idx) re im) s1 (scatter_init s1))"
    unfolding cs using b1 ec(3,4)
    by (intro rows_loop_inv) (simp_all add: buffers_ok_def mult.commute)
  show "\<forall>t \<in> fst ` set cs. u64 t = t"
    unfolding cs_def using ok ec(2) r by (intro contribsN_keys) (simp_all add: sparse_ok_def)
  have "length cs = 2 ^ length ks * length (entries s)"
    unfolding cs_def by (simp only: length_concat_contribsN ec(2))
  then show "length cs = 2 ^ length ks * activeCount s" by (simp add: entries_def view_def)
  show "amp_of cs = gateN mat ks (amp_of (entries s))"
    unfolding cs_def using contribsN_gateN [OF d] ec(2) by simp
qed

section \<open>Two-qubit gates\<close>

text \<open>
  C12. Applying a two-qubit catalog matrix through the general path of
  \<open>apply2QubitGate\<close> (any gate but the CZ, CNOT and SWAP fast paths, e.g. RZZ) to two
  distinct mapped qubits at positions \<open>k1, k2 < 64\<close> keeps the sparse invariant and yields
  the matrix action \<open>gateN\<close> on \<open>[k1, k2]\<close> (\<open>q1\<close> the high bit of the matrix index), cut at the
  prune threshold.
\<close>

theorem apply2QubitGate_refines:
  assumes ok: "sparse_ok s" and q: "qubitMap s q1 = Some k1" "qubitMap s q2 = Some k2"
    and k: "k1 \<noteq> k2" "k1 < 64" "k2 < 64" and g: "g \<notin> {CZ, CNOT, SWAP}" and m: "GATES g ps = Some mat"
  shows "\<exists>s' thr. apply2QubitGate g q1 q2 ps s = Inr s' \<and> sparse_ok s' \<and>
     prune_base \<le> thr \<and> thr \<le> prune_base * max 1 (real (4 * activeCount s) / real (memoryBudget s)) \<and>
     amp_of (entries s') = prune_amp thr (gateN mat [k1, k2] (amp_of (entries s)))"
proof -
  let ?ks = "[k1, k2]"
  let ?s1 = "ensureCapacity (activeCount s * 2 ^ length ?ks) s"
  let ?body = "\<lambda>idx re im. scatter_rows (2 ^ length ?ks) mat (map (set_field ?ks idx) [0..<2 ^ length ?ks])
                                       (col_of ?ks idx) re im"
  let ?a = "scatter_all ?body ?s1 (scatter_init ?s1)"
  have d: "distinct ?ks" and r: "\<forall>k \<in> set ?ks. k < 64" using k by auto
  note f = applyN_scatter [OF ok d r]
  have "apply2QubitGate g q1 q2 ps s = Inr (prune (scatter_commit ?s1 ?a))"
    using q g m apply2_entry_generic [of g mat k1 k2]
    by (simp add: apply2QubitGate_def qubit_bit_def Let_def)
  with scatter_prune [OF f(1,3,4) eq_imp_le [OF f(5)]] f(2,6) show ?thesis by auto
qed

theorem apply2QubitGate_refines_witness:
  "\<exists>s' thr. apply2QubitGate RZZ 0 1 [pi] (Simulator [0, 1] None None (\<lambda>_. 0)) = Inr s' \<and> sparse_ok s' \<and>
     prune_base \<le> thr \<and> thr \<le> prune_base \<and>
     amp_of (entries s') = prune_amp thr (gateN (RZZ_mat pi) [0, 1] (\<lambda>j. if j = 0 then 1 else 0))"
proof -
  let ?s0 = "Simulator [0, 1] None None (\<lambda>_. 0)"
  have q: "qubitMap ?s0 0 = Some 0" "qubitMap ?s0 1 = Some 1" by (simp_all add: Simulator_def position_map_def)
  have c: "activeCount ?s0 = 1" "memoryBudget ?s0 = 5000" by (simp_all add: Simulator_def)
  have "\<exists>s' thr. apply2QubitGate RZZ 0 1 [pi] ?s0 = Inr s' \<and> sparse_ok s' \<and>
     prune_base \<le> thr \<and> thr \<le> prune_base * max 1 (real (4 * activeCount ?s0) / real (memoryBudget ?s0)) \<and>
     amp_of (entries s') = prune_amp thr (gateN (RZZ_mat pi) [0, 1] (amp_of (entries ?s0)))"
    by (rule apply2QubitGate_refines [OF Simulator_sparse_ok q]) simp_all
  then show ?thesis by (simp only: c Simulator_amp) simp
qed

section \<open>Three-qubit gates\<close>

lemma apply3_entry_eq:
  "apply3_entry m (2 ^ k1) (2 ^ k2) (2 ^ k3) =
   (\<lambda>idx re im. scatter_rows 8 m (map (set_field [k1, k2, k3] idx) [0..<8]) (col_of [k1, k2, k3] idx) re im)"
proof (intro ext)
  fix idx :: int and re im :: real and a
  have col: "(if idx AND 2 ^ k1 \<noteq> 0 then 4 else 0) OR (if idx AND 2 ^ k2 \<noteq> 0 then 2 else 0)
             OR (if idx AND 2 ^ k3 \<noteq> 0 then 1 else 0) = col_of [k1, k2, k3] idx"
    by (simp add: and_exp_nonzero_iff)
  show "apply3_entry m (2 ^ k1) (2 ^ k2) (2 ^ k3) idx re im a =
        scatter_rows 8 m (map (set_field [k1, k2, k3] idx) [0..<8]) (col_of [k1, k2, k3] idx) re im a"
    using col [symmetric] by (simp add: apply3_entry_def set_field_def upt_8 bit_0 Let_def ac_simps)
qed

text \<open>
  C13. \<open>apply3QubitGate\<close> with a catalog matrix (CCX) on three distinct mapped qubits at
  positions below 64 keeps the sparse invariant and yields the matrix action \<open>gateN\<close> on
  \<open>[k1, k2, k3]\<close>, cut at the prune threshold.
\<close>

theorem apply3QubitGate_refines:
  assumes ok: "sparse_ok s"
    and q: "qubitMap s q1 = Some k1" "qubitMap s q2 = Some k2" "qubitMap s q3 = Some k3"
    and k: "distinct [k1, k2, k3]" "k1 < 64" "k2 < 64" "k3 < 64" and m: "GATES g ps = Some mat"
  shows "\<exists>s' thr. apply3QubitGate g q1 q2 q3 ps s = Inr s' \<and> sparse_ok s' \<and>
     prune_base \<le> thr \<and> thr \<le> prune_base * max 1 (real (8 * activeCount s) / real (memoryBudget s)) \<and>
     amp_of (entries s') = prune_amp thr (gateN mat [k1, k2, k3] (amp_of (entries s)))"
proof -
  let ?ks = "[k1, k2, k3]"
  let ?s1 = "ensureCapacity (activeCount s * 2 ^ length ?ks) s"
  let ?body = "\<lambda>idx re im. scatter_rows (2 ^ length ?ks) mat (map (set_field ?ks idx) [0..<2 ^ length ?ks])
                                       (col_of ?ks idx) re im"
  let ?a = "scatter_all ?body ?s1 (scatter_init ?s1)"
  have r: "\<forall>k \<in> set ?ks. k < 64" using k by auto
  note f = applyN_scatter [OF ok k(1) r]
  have "apply3QubitGate g q1 q2 q3 ps s = Inr (prune (scatter_commit ?s1 ?a))"
    using q m apply3_entry_eq [of mat k1 k2 k3]
    by (simp add: apply3QubitGate_def qubit_bit_def Let_def)
  with scatter_prune [OF f(1,3,4) eq_imp_le [OF f(5)]] f(2,6) show ?thesis by auto
qed

theorem apply3QubitGate_refines_witness:
  "\<exists>s' thr. apply3QubitGate CCX 0 1 2 [] (Simulator [0, 1, 2] None None (\<lambda>_. 0)) = Inr s' \<and> sparse_ok s' \<and>
     prune_base \<le> thr \<and> thr \<le> prune_base \<and>
     amp_of (entries s') = prune_amp thr (gateN CCX_mat [0, 1, 2] (\<lambda>j. if j = 0 then 1 else 0))"
proof -
  let ?s0 = "Simulator [0, 1, 2] None None (\<lambda>_. 0)"
  have q: "qubitMap ?s0 0 = Some 0" "qubitMap ?s0 1 = Some 1" "qubitMap ?s0 2 = Some 2"
    by (simp_all add: Simulator_def position_map_def)
  have c: "activeCount ?s0 = 1" "memoryBudget ?s0 = 5000" by (simp_all add: Simulator_def)
  have "\<exists>s' thr. apply3QubitGate CCX 0 1 2 [] ?s0 = Inr s' \<and> sparse_ok s' \<and>
     prune_base \<le> thr \<and> thr \<le> prune_base * max 1 (real (8 * activeCount ?s0) / real (memoryBudget ?s0)) \<and>
     amp_of (entries s') = prune_amp thr (gateN CCX_mat [0, 1, 2] (amp_of (entries ?s0)))"
    by (rule apply3QubitGate_refines [OF Simulator_sparse_ok q]) simp_all
  then show ?thesis by (simp only: c Simulator_amp) simp
qed

end
