(* ===== verification/Optimizer.thy ===== *)
theory Optimizer
  imports Circuit
begin

text \<open>
  Part P4, the peephole optimizer (\<open>src/src/compiler/optimizer.js\<close>, class
  \<open>Optimizer\<close>, static \<open>prune\<close>). One left-to-right pass keeps the output list
  \<open>optimized\<close> (a deleted node is \<open>null\<close>, here \<open>None\<close>) and a wire map from each qubit
  handle (or \<open>null\<close>, the wire of IF and WHILE nodes) to the output positions of the
  nodes on it. A single-qubit node scans its wire backwards for an earlier node with the
  same gate and qubit, stepping over nodes it commutes with; when one is found,
  rotations merge, \<open>S S\<close> becomes \<open>Z\<close>, \<open>T T\<close> becomes \<open>S\<close> and self-inverse pairs cancel.
  The source mutates the partner node in place; the nodes are not shared between
  positions, so the model replaces the partner in the list. Floats are reals: \<open>%\<close> is
  \<open>js_rem\<close>, \<open>Math.PI\<close> is \<open>pi\<close>.
\<close>

datatype role = Control | Target

definition COMMUTATION_RULES :: "(gname \<times> gname list \<times> role) list" where
  "COMMUTATION_RULES =
     [(Z, [CNOT, CZ], Control),
      (S, [CNOT, CZ, T, RZ], Control),
      (T, [CNOT, CZ, S, RZ], Control),
      (RZ, [CNOT, CZ, S, T], Control),
      (X, [CNOT], Target),
      (RX, [CNOT], Target)]"

definition EPSILON :: real where
  "EPSILON = 1 / 10 ^ 10"

text \<open>\<open>#isIdentity(op)\<close>: a rotation by a multiple of \<open>2\<pi>\<close>, or a \<open>U3\<close> whose angles all are.\<close>

definition isIdentity :: "instr \<Rightarrow> bool" where
  "isIdentity op =
     (case params op of
        [] \<Rightarrow> False
      | p0 # _ \<Rightarrow>
          if gate op \<in> set [RX, RY, RZ] then
            (let angle = \<bar>js_rem p0 (2 * pi)\<bar> in angle < EPSILON \<or> \<bar>angle - 2 * pi\<bar> < EPSILON)
          else if gate op = U3 then list_all (\<lambda>p. \<bar>js_rem p (2 * pi)\<bar> < EPSILON) (params op)
          else False)"

text \<open>\<open>#areQubitsEqual(q1, q2)\<close>: identity, or arrays equal element by element.\<close>

fun areQubitsEqual :: "qref \<Rightarrow> qref \<Rightarrow> bool" where
  "areQubitsEqual (QList q1) (QList q2) =
     (q1 = q2 \<or> (length q1 = length q2 \<and> list_all (\<lambda>i. q1 ! i = q2 ! i) [0..<length q1]))"
| "areQubitsEqual q1 q2 = (q1 = q2)"

text \<open>\<open>gate.qubit[0]\<close>: the first handle of an array; \<open>undefined\<close> (\<open>None\<close>) for a single
  handle, which is not an array.\<close>

fun qubit0 :: "qref \<Rightarrow> qubit option" where
  "qubit0 (QList (q # _)) = Some q"
| "qubit0 _ = None"

text \<open>\<open>#canCommute(gateA, gateB)\<close>.\<close>

definition canCommute :: "instr \<Rightarrow> instr \<Rightarrow> bool" where
  "canCommute gateA gateB =
     (let qA = qref_list (qubit gateA); qB = qref_list (qubit gateB);
          shared = filter (\<lambda>q. q \<in> set qB) qA
      in if length shared = 0 then True
         else
           (case find (\<lambda>(g, cw, r). (g = gate gateA \<and> gate gateB \<in> set cw) \<or>
                                   (g = gate gateB \<and> gate gateA \<in> set cw)) COMMUTATION_RULES of
              None \<Rightarrow> False
            | Some (_, _, r) \<Rightarrow>
                (let multiQubitGate = (case qubit gateA of QList _ \<Rightarrow> gateA | _ \<Rightarrow> gateB);
                     sharedQubit = hd shared;
                     isControl = (case qubit0 (qubit multiQubitGate) of
                                    Some q \<Rightarrow> sharedQubit = Some q
                                  | None \<Rightarrow> False)
                 in if r = Control \<and> isControl then True
                    else if r = Target \<and> \<not> isControl then True
                    else False)))"

text \<open>The state of one \<open>prune\<close> pass.\<close>

record opt =
  wireMap :: "qubit option \<rightharpoonup> nat list"
  optimized :: "instr option list"

text \<open>The backward scan of \<open>#findCommutingPartner\<close> over a wire (lines 100--113).\<close>

fun scan_wire :: "instr \<Rightarrow> instr option list \<Rightarrow> nat list \<Rightarrow> nat option" where
  "scan_wire op outs [] = None"
| "scan_wire op outs (checkIdx # rest) =
     (case outs ! checkIdx of
        None \<Rightarrow> scan_wire op outs rest
      | Some candidate \<Rightarrow>
          if gate candidate = gate op \<and> areQubitsEqual (qubit candidate) (qubit op) then Some checkIdx
          else if \<not> canCommute op candidate then None
          else scan_wire op outs rest)"

definition findCommutingPartner :: "instr \<Rightarrow> (qubit option \<rightharpoonup> nat list) \<Rightarrow> instr option list \<Rightarrow> nat option" where
  "findCommutingPartner op wm outs =
     (let qubits = qref_list (qubit op)
      in if length qubits \<noteq> 1 then None
         else (let q = hd qubits;
                   wire = (case wm q of None \<Rightarrow> [] | Some w \<Rightarrow> w)
               in scan_wire op outs (rev wire)))"

text \<open>\<open>#removeFromWires(idx, op, wireMap)\<close>: \<open>indexOf\<close> and \<open>splice\<close> drop the first occurrence.\<close>

definition removeFromWires :: "nat \<Rightarrow> instr \<Rightarrow> (qubit option \<rightharpoonup> nat list) \<Rightarrow> (qubit option \<rightharpoonup> nat list)" where
  "removeFromWires idx op wm =
     fold (\<lambda>q wm. case wm q of None \<Rightarrow> wm | Some wire \<Rightarrow> wm(q \<mapsto> remove1 idx wire))
          (qref_list (qubit op)) wm"

text \<open>Node updates: \<open>partner.gate = g\<close> and \<open>partner.params[0] = v\<close> (which extends an empty array).\<close>

definition set_gate :: "gname \<Rightarrow> instr \<Rightarrow> instr" where
  "set_gate g op = Instr g (qubit op) (params op) (condition op) (body op)"

definition set_param0 :: "real \<Rightarrow> instr \<Rightarrow> instr" where
  "set_param0 v op =
     Instr (gate op) (qubit op) (case params op of [] \<Rightarrow> [v] | _ # rest \<Rightarrow> v # rest)
           (condition op) (body op)"

text \<open>\<open>#mergeGates(partnerIdx, op, optimized, wireMap)\<close>. \<open>params[0]\<close> of an empty array is
  \<open>undefined\<close>, as \<open>hd []\<close> is in HOL.\<close>

definition mergeGates :: "nat \<Rightarrow> instr \<Rightarrow> opt \<Rightarrow> opt" where
  "mergeGates partnerIdx op st =
     (let partner = the (optimized st ! partnerIdx);
          partner' = (if gate op \<in> set [RX, RY, RZ]
                      then set_param0 (js_rem (hd (params partner) + hd (params op)) (2 * pi)) partner
                      else partner);
          st' = st\<lparr>optimized := (optimized st)[partnerIdx := Some partner']\<rparr>
      in if isIdentity partner'
         then st'\<lparr>wireMap := removeFromWires partnerIdx partner' (wireMap st'),
                  optimized := (optimized st')[partnerIdx := None]\<rparr>
         else st')"

text \<open>Appending a node and registering it on the wires of its qubits (lines 48--54).\<close>

definition push_op :: "instr \<Rightarrow> opt \<Rightarrow> opt" where
  "push_op op st =
     (let newIdx = length (optimized st)
      in st\<lparr>optimized := optimized st @ [Some op],
            wireMap := fold (\<lambda>q wm. wm(q \<mapsto> (case wm q of None \<Rightarrow> [] | Some w \<Rightarrow> w) @ [newIdx]))
                            (qref_list (qubit op)) (wireMap st)\<rparr>)"

definition selfInverses :: "gname list" where
  "selfInverses = [H, X, Y, Z, CNOT, CZ, SWAP]"

text \<open>One iteration of the main loop of \<open>prune\<close> (lines 17--55).\<close>

definition opt_step :: "instr \<Rightarrow> opt \<Rightarrow> opt" where
  "opt_step op st =
     (if isIdentity op then st
      else
        (case findCommutingPartner op (wireMap st) (optimized st) of
           None \<Rightarrow> push_op op st
         | Some partnerIdx \<Rightarrow>
             (let partner = the (optimized st ! partnerIdx)
              in if gate op \<in> set [RX, RY, RZ] then mergeGates partnerIdx op st
                 else if gate op = S \<and> gate partner = S then
                   st\<lparr>optimized := (optimized st)[partnerIdx := Some (set_gate Z partner)]\<rparr>
                 else if gate op = T \<and> gate partner = T then
                   st\<lparr>optimized := (optimized st)[partnerIdx := Some (set_gate S partner)]\<rparr>
                 else if gate op = gate partner \<and> gate op \<in> set selfInverses then
                   st\<lparr>wireMap := removeFromWires partnerIdx partner (wireMap st),
                      optimized := (optimized st)[partnerIdx := None]\<rparr>
                 else push_op op st)))"

text \<open>\<open>Optimizer.prune(instructions)\<close>: the pass, then the non-null, non-identity nodes.\<close>

definition Optimizer_prune :: "instr list \<Rightarrow> instr list" where
  "Optimizer_prune instructions =
     (let st = fold opt_step instructions \<lparr>wireMap = Map.empty, optimized = []\<rparr>
      in filter (\<lambda>op. \<not> isIdentity op) (List.map_filter id (optimized st)))"

section \<open>The wire-map invariant\<close>

text \<open>\<open>wireMap.get(q) || []\<close>, and the positions a wire should list: each live node once per
  occurrence of the wire in its qubit list, in output order.\<close>

definition wire_get :: "(qubit option \<rightharpoonup> nat list) \<Rightarrow> qubit option \<Rightarrow> nat list" where
  "wire_get wm q = (case wm q of None \<Rightarrow> [] | Some w \<Rightarrow> w)"

definition wire_of :: "instr option list \<Rightarrow> qubit option \<Rightarrow> nat list" where
  "wire_of outs q =
     concat (map (\<lambda>i. case outs ! i of
                        None \<Rightarrow> []
                      | Some op \<Rightarrow> replicate (count_list (qref_list (qubit op)) q) i)
                 [0..<length outs])"

definition wire_ok :: "opt \<Rightarrow> bool" where
  "wire_ok st \<longleftrightarrow> (\<forall>q. wire_get (wireMap st) q = wire_of (optimized st) q)"

lemma wire_get_push_fold:
  "wire_get (fold (\<lambda>q wm. wm(q \<mapsto> (case wm q of None \<Rightarrow> [] | Some w \<Rightarrow> w) @ [n])) qs wm) q =
     wire_get wm q @ replicate (count_list qs q) n"
  by (induction qs arbitrary: wm) (auto simp: wire_get_def replicate_append_same)

lemma wire_of_snoc:
  "wire_of (outs @ [Some op]) q = wire_of outs q @ replicate (count_list (qref_list (qubit op)) q) (length outs)"
proof -
  have m: "map (\<lambda>i. case (outs @ [Some op]) ! i of None \<Rightarrow> []
                 | Some op \<Rightarrow> replicate (count_list (qref_list (qubit op)) q) i) [0..<length outs] =
        map (\<lambda>i. case outs ! i of None \<Rightarrow> []
                 | Some op \<Rightarrow> replicate (count_list (qref_list (qubit op)) q) i) [0..<length outs]"
    by (rule map_cong) (simp_all add: nth_append)
  show ?thesis by (simp add: wire_of_def m del: map_eq_conv)
qed

lemma remove1_iter_filter:
  "(remove1 x ^^ count_list xs x) xs = filter (\<lambda>y. y \<noteq> x) xs"
proof (induction xs)
  case Nil
  then show ?case by (simp add: funpow_swap1)
next
  case (Cons y xs)
  then show ?case
  proof (cases "y = x")
    case True
    then have "(remove1 x ^^ count_list (y # xs) x) (y # xs) = (remove1 x ^^ count_list xs x) xs"
      by (simp add: funpow_swap1)
    then show ?thesis using Cons True by simp
  next
    case False
    have "(remove1 x ^^ n) (y # zs) = y # (remove1 x ^^ n) zs" for n zs
      using False by (induction n) auto
    then show ?thesis using Cons False by simp
  qed
qed

lemma wire_get_remove_fold:
  "wire_get (fold (\<lambda>q wm. case wm q of None \<Rightarrow> wm | Some wire \<Rightarrow> wm(q \<mapsto> remove1 idx wire)) qs wm) q =
     (remove1 idx ^^ count_list qs q) (wire_get wm q)"
proof (induction qs arbitrary: wm)
  case Nil
  then show ?case by simp
next
  case (Cons q' qs)
  have step: "wire_get (case wm q' of None \<Rightarrow> wm | Some wire \<Rightarrow> wm(q' \<mapsto> remove1 idx wire)) q =
      (if q' = q then remove1 idx (wire_get wm q) else wire_get wm q)"
    by (auto simp: wire_get_def split: option.split)
  show ?case using Cons step by (simp add: funpow_swap1)
qed

lemma count_list_replicate: "count_list (replicate n x) y = (if x = y then n else 0)"
  by (induction n) auto

lemma wire_of_count:
  assumes "outs ! p = Some op" "p < length outs"
  shows "count_list (wire_of outs q) p = count_list (qref_list (qubit op)) q"
proof -
  have "count_list (wire_of outs q) p =
        (\<Sum>i\<leftarrow>[0..<length outs]. count_list (case outs ! i of None \<Rightarrow> [] | Some op \<Rightarrow>
            replicate (count_list (qref_list (qubit op)) q) i) p)"
    by (simp add: wire_of_def count_list_concat comp_def)
  also have "\<dots> = (\<Sum>i\<leftarrow>[0..<length outs]. if i = p then count_list (qref_list (qubit op)) q else 0)"
    using assms by (intro arg_cong [where f = sum_list] map_cong) (auto simp: count_list_replicate split: option.split)
  also have "\<dots> = count_list (qref_list (qubit op)) q"
    using assms(2) by (simp add: sum_list_map_upt_sum)
  finally show ?thesis .
qed

lemma wire_of_replace:
  assumes "outs ! p = Some op" and "qref_list (qubit op') = qref_list (qubit op)"
  shows "wire_of (outs[p := Some op']) q = wire_of outs q"
  unfolding wire_of_def length_list_update
  apply (rule arg_cong [where f = concat], rule map_cong, rule refl)
  subgoal for i using assms by (cases "i = p") auto
  done

lemma filter_replicate_neq:
  "filter (\<lambda>y. y \<noteq> p) (replicate n i) = (if i = p then [] else replicate n i)"
  by (induction n) auto

lemma wire_of_delete:
  assumes "outs ! p = Some op"
  shows "wire_of (outs[p := None]) q = filter (\<lambda>y. y \<noteq> p) (wire_of outs q)"
  unfolding wire_of_def length_list_update filter_concat map_map
  apply (rule arg_cong [where f = concat], rule map_cong, rule refl)
  subgoal for i using assms by (cases "i = p") (auto simp: filter_replicate_neq split: option.split)
  done

lemma wire_ok_push: "wire_ok st \<Longrightarrow> wire_ok (push_op op st)"
  by (simp add: wire_ok_def push_op_def wire_get_push_fold wire_of_snoc)

lemma wire_ok_replace:
  assumes "wire_ok st" and "optimized st ! p = Some op"
    and "qref_list (qubit op') = qref_list (qubit op)"
  shows "wire_ok (st\<lparr>optimized := (optimized st)[p := Some op']\<rparr>)"
  using assms wire_of_replace [OF assms(2,3)] by (simp add: wire_ok_def)

lemma wire_ok_delete:
  assumes ok: "wire_ok st" and p: "optimized st ! p = Some op" "p < length (optimized st)"
  shows "wire_ok (st\<lparr>wireMap := removeFromWires p op (wireMap st), optimized := (optimized st)[p := None]\<rparr>)"
  unfolding wire_ok_def
proof (intro allI)
  fix q
  have "wire_get (removeFromWires p op (wireMap st)) q =
        (remove1 p ^^ count_list (qref_list (qubit op)) q) (wire_of (optimized st) q)"
    using ok by (simp add: removeFromWires_def wire_get_remove_fold wire_ok_def)
  also have "\<dots> = filter (\<lambda>y. y \<noteq> p) (wire_of (optimized st) q)"
    using wire_of_count [OF p, of q] remove1_iter_filter by metis
  finally show "wire_get (wireMap (st\<lparr>wireMap := removeFromWires p op (wireMap st),
                 optimized := (optimized st)[p := None]\<rparr>)) q =
               wire_of (optimized (st\<lparr>wireMap := removeFromWires p op (wireMap st),
                 optimized := (optimized st)[p := None]\<rparr>)) q"
    using wire_of_delete [OF p(1)] by simp
qed

lemma scan_wire_Some:
  "scan_wire op outs ws = Some p \<Longrightarrow>
     p \<in> set ws \<and> (\<exists>c. outs ! p = Some c \<and> gate c = gate op \<and> areQubitsEqual (qubit c) (qubit op))"
  by (induction op outs ws rule: scan_wire.induct) (auto split: option.splits if_splits)

lemma wire_of_set:
  "p \<in> set (wire_of outs q) \<Longrightarrow> p < length outs"
  by (auto simp: wire_of_def split: option.splits)

lemma findCommutingPartner_Some:
  assumes "wire_ok st" and "findCommutingPartner op (wireMap st) (optimized st) = Some p"
  shows "p < length (optimized st) \<and>
         (\<exists>c. optimized st ! p = Some c \<and> gate c = gate op \<and> areQubitsEqual (qubit c) (qubit op))"
proof -
  obtain q where "scan_wire op (optimized st) (rev (wire_get (wireMap st) q)) = Some p"
    using assms(2) by (auto simp: findCommutingPartner_def wire_get_def Let_def split: if_splits)
  from scan_wire_Some [OF this] assms(1) show ?thesis
    by (auto simp: wire_ok_def intro: wire_of_set)
qed

lemma qref_list_set_param0 [simp]: "qref_list (qubit (set_param0 v op)) = qref_list (qubit op)"
  by (simp add: set_param0_def)

lemma qref_list_set_gate [simp]: "qref_list (qubit (set_gate g op)) = qref_list (qubit op)"
  by (simp add: set_gate_def)

lemma wire_ok_mergeGates:
  assumes ok: "wire_ok st" and p: "optimized st ! p = Some c" "p < length (optimized st)"
  shows "wire_ok (mergeGates p op st)"
proof -
  define c' where "c' = (if gate op \<in> set [RX, RY, RZ]
                        then set_param0 (js_rem (hd (params c) + hd (params op)) (2 * pi)) c else c)"
  let ?st' = "st\<lparr>optimized := (optimized st)[p := Some c']\<rparr>"
  have q: "qref_list (qubit c') = qref_list (qubit c)" by (simp add: c'_def)
  have ok': "wire_ok ?st'" by (rule wire_ok_replace [OF ok p(1) q])
  have "optimized ?st' ! p = Some c'" "p < length (optimized ?st')" using p(2) by simp_all
  note del = wire_ok_delete [OF ok' this]
  have m: "mergeGates p op st =
      (if isIdentity c' then ?st'\<lparr>wireMap := removeFromWires p c' (wireMap ?st'),
                                   optimized := (optimized ?st')[p := None]\<rparr>
       else ?st')"
    using p(1) by (simp add: mergeGates_def c'_def Let_def)
  show ?thesis using ok' del by (simp only: m) simp
qed

lemma opt_step_wire_ok:
  assumes ok: "wire_ok st"
  shows "wire_ok (opt_step op st)"
proof (cases "findCommutingPartner op (wireMap st) (optimized st)")
  case None
  then show ?thesis using ok wire_ok_push by (simp add: opt_step_def)
next
  case (Some p)
  then obtain c where p: "p < length (optimized st)" and c: "optimized st ! p = Some c"
    using findCommutingPartner_Some [OF ok] by blast
  have "wire_ok (st\<lparr>optimized := (optimized st)[p := Some (set_gate g c)]\<rparr>)" for g
    by (rule wire_ok_replace [OF ok c]) simp
  moreover have "wire_ok (st\<lparr>wireMap := removeFromWires p c (wireMap st), optimized := (optimized st)[p := None]\<rparr>)"
    by (rule wire_ok_delete [OF ok c p])
  ultimately show ?thesis
    using Some ok c wire_ok_mergeGates [OF ok c p] wire_ok_push [OF ok]
    by (simp add: opt_step_def Let_def)
qed

section \<open>The number of live nodes\<close>

definition live :: "instr option list \<Rightarrow> nat" where
  "live outs = length (filter (\<lambda>x. x \<noteq> None) outs)"

lemma live_update:
  assumes "outs ! p = Some c" and "p < length outs"
  shows "live (outs[p := v]) \<le> live outs"
  using assms
proof (induction outs arbitrary: p)
  case Nil
  then show ?case by simp
next
  case (Cons x xs)
  then show ?case by (cases p) (auto simp: live_def)
qed

lemma live_push [simp]: "live (optimized (push_op op st)) = Suc (live (optimized st))"
  by (simp add: push_op_def live_def)

lemma live_mergeGates:
  assumes "optimized st ! p = Some c" and "p < length (optimized st)"
  shows "live (optimized (mergeGates p op st)) \<le> live (optimized st)"
proof -
  have "live ((optimized st)[p := Some c']) \<le> live (optimized st)" for c'
    using live_update [OF assms] .
  moreover have "live ((optimized st)[p := Some c', p := None]) \<le> live (optimized st)" for c'
    using live_update [OF assms] by simp
  ultimately show ?thesis by (simp add: mergeGates_def Let_def)
qed

lemma live_opt_step:
  assumes ok: "wire_ok st"
  shows "live (optimized (opt_step op st)) \<le> Suc (live (optimized st))"
proof (cases "findCommutingPartner op (wireMap st) (optimized st)")
  case None
  then show ?thesis by (simp add: opt_step_def)
next
  case (Some p)
  then obtain c where p: "p < length (optimized st)" and c: "optimized st ! p = Some c"
    using findCommutingPartner_Some [OF ok] by blast
  have "live ((optimized st)[p := v]) \<le> live (optimized st)" for v
    by (rule live_update [OF c p])
  then show ?thesis
    using Some c live_mergeGates [OF c p, of op] by (auto simp: opt_step_def Let_def le_SucI)
qed

lemma live_map_filter: "length (List.map_filter id outs) = live outs"
  by (induction outs) (auto simp: live_def map_filter_simps split: option.split)

lemma prune_pass_invariants:
  "wire_ok (fold opt_step instrs st) \<and> live (optimized (fold opt_step instrs st)) \<le> live (optimized st) + length instrs"
  if "wire_ok st"
  using that
proof (induction instrs arbitrary: st)
  case Nil
  then show ?case by simp
next
  case (Cons op instrs)
  from Cons.prems have "wire_ok (opt_step op st)" by (rule opt_step_wire_ok)
  with Cons.IH [of "opt_step op st"] live_opt_step [OF Cons.prems, of op] show ?case by simp
qed

lemma wire_ok_init: "wire_ok \<lparr>wireMap = Map.empty, optimized = []\<rparr>"
  by (simp add: wire_ok_def wire_get_def wire_of_def)

section \<open>Properties of the pass\<close>

text \<open>
  C5. Throughout a \<open>prune\<close> pass the wire map lists, for every qubit handle and for the
  \<open>null\<close> wire, exactly the output positions of the live nodes on that wire, in output
  order (each as often as the node names the wire): the wire scan of
  \<open>#findCommutingPartner\<close> sees every live node that shares the qubit, and
  \<open>#removeFromWires\<close> removes exactly the deleted node.
\<close>

theorem prune_pass_wire_ok:
  "wire_ok (fold opt_step instrs \<lparr>wireMap = Map.empty, optimized = []\<rparr>)"
  using prune_pass_invariants [OF wire_ok_init] by blast



end
