(* ===== verification/Qubit_Manager.thy ===== *)
theory Qubit_Manager
  imports Simulator_Measure
begin

text \<open>
  Part P7, the qubit manager (\<open>src/src/api/operations.js\<close>, lines 138--159, class
  \<open>QubitManager\<close>). The registry is the set of live handles. \<open>Symbol("qubit")\<close> mints an
  identity distinct from every other; the model mints the handles from a counter
  \<open>nextSymbol\<close>, so a handle is fresh exactly when it is at least the counter. \<open>release\<close>
  asks the simulator whether the qubit is in \<open>|0\<rangle>\<close> (\<open>isZero\<close>), which throws a TypeError
  for a handle the simulator does not know.
\<close>

record manager =
  registry :: "qubit set"
  nextSymbol :: nat

definition new_manager :: manager where
  "new_manager = \<lparr>registry = {}, nextSymbol = 0\<rparr>"

definition allocate :: "manager \<Rightarrow> qubit \<times> manager" where
  "allocate m =
     (let qid = nextSymbol m
      in (qid, m\<lparr>registry := insert qid (registry m), nextSymbol := Suc (nextSymbol m)\<rparr>))"

definition release :: "qubit \<Rightarrow> sim \<Rightarrow> manager \<Rightarrow> error + manager" where
  "release qid simulator m =
     (case isZero simulator qid of
        Inl e \<Rightarrow> Inl e
      | Inr z \<Rightarrow> if \<not> z then Inl (ReleaseError qid) else Inr (m\<lparr>registry := registry m - {qid}\<rparr>))"

definition isAllocated :: "qubit \<Rightarrow> manager \<Rightarrow> bool" where
  "isAllocated qid m \<longleftrightarrow> qid \<in> registry m"

text \<open>\<open>Array.from({length: count}, () => manager.allocate())\<close>: handles in allocation order.\<close>

primrec allocate_n :: "nat \<Rightarrow> manager \<Rightarrow> qubit list \<times> manager" where
  "allocate_n 0 m = ([], m)"
| "allocate_n (Suc n) m =
     (let (qid, m1) = allocate m; (ids, m2) = allocate_n n m1 in (qid # ids, m2))"

section \<open>Lemmas\<close>

text \<open>Every live handle was minted: it lies below the counter.\<close>

definition manager_ok :: "manager \<Rightarrow> bool" where
  "manager_ok m \<longleftrightarrow> (\<forall>qid \<in> registry m. qid < nextSymbol m)"

lemma new_manager_ok: "manager_ok new_manager"
  by (simp add: manager_ok_def new_manager_def)

lemma allocate_ok:
  assumes "manager_ok m" and "allocate m = (qid, m')"
  shows "manager_ok m'" and "qid \<notin> registry m" and "isAllocated qid m'"
    and "registry m' = insert qid (registry m)" and "nextSymbol m \<le> qid"
  using assms by (auto simp: allocate_def manager_ok_def isAllocated_def Let_def less_Suc_eq)

lemma release_ok:
  assumes "manager_ok m" and "release qid s m = Inr m'"
  shows "manager_ok m'" and "registry m' = registry m - {qid}" and "nextSymbol m' = nextSymbol m"
  using assms by (auto simp: release_def manager_ok_def split: sum.splits if_splits)

lemma allocate_n_props:
  assumes "manager_ok m" and "allocate_n n m = (ids, m')"
  shows "manager_ok m' \<and> distinct ids \<and> length ids = n \<and>
         registry m' = registry m \<union> set ids \<and> (\<forall>qid \<in> set ids. nextSymbol m \<le> qid \<and> qid < nextSymbol m') \<and>
         nextSymbol m \<le> nextSymbol m'"
  using assms
proof (induction n arbitrary: m ids m')
  case 0
  then show ?case by simp
next
  case (Suc n)
  obtain qid m1 where a: "allocate m = (qid, m1)" by (cases "allocate m")
  obtain ids1 m2 where r: "allocate_n n m1 = (ids1, m2)" by (cases "allocate_n n m1")
  note o = allocate_ok [OF Suc.prems(1) a]
  have ih: "manager_ok m2 \<and> distinct ids1 \<and> length ids1 = n \<and>
      registry m2 = registry m1 \<union> set ids1 \<and> (\<forall>qid \<in> set ids1. nextSymbol m1 \<le> qid \<and> qid < nextSymbol m2) \<and>
      nextSymbol m1 \<le> nextSymbol m2"
    using Suc.IH [OF o(1) r] .
  have n1: "nextSymbol m1 = Suc qid" "qid = nextSymbol m" using a by (auto simp: allocate_def Let_def)
  have "ids = qid # ids1" "m' = m2" using Suc.prems(2) a r by simp_all
  then show ?case using ih o n1 by auto
qed

lemma isZero_eq:
  "qubitMap s q = Some k \<Longrightarrow> isZero s q = Inr (prob1_of (2 ^ k) (entries s) < getEffectiveEpsilon s)"
  by (simp add: isZero_def getProb1_eq)

text \<open>
  C19. From a well-formed manager, allocating \<open>n\<close> qubits returns \<open>n\<close> distinct handles,
  none of which was live before and all of which are live afterwards, and the manager stays
  well-formed: a scope never receives a handle that another scope still holds.
\<close>

theorem allocate_n_fresh:
  assumes "manager_ok m" and "allocate_n n m = (ids, m')"
  shows "distinct ids \<and> length ids = n \<and> set ids \<inter> registry m = {} \<and>
         (\<forall>qid \<in> set ids. isAllocated qid m') \<and> manager_ok m'"
proof -
  note p = allocate_n_props [OF assms]
  have "set ids \<inter> registry m = {}"
    using p assms(1) unfolding manager_ok_def by fastforce
  then show ?thesis using p by (simp add: isAllocated_def)
qed

theorem allocate_n_fresh_witness:
  "distinct [0, 1, 2::qubit] \<and> length [0, 1, 2::qubit] = 3 \<and> set [0, 1, 2::qubit] \<inter> registry new_manager = {} \<and>
   isAllocated 0 (snd (allocate_n 3 new_manager)) \<and> isAllocated 1 (snd (allocate_n 3 new_manager)) \<and>
   isAllocated 2 (snd (allocate_n 3 new_manager)) \<and>
   manager_ok (snd (allocate_n 3 new_manager))"
proof -
  have a: "allocate_n 3 new_manager = ([0, 1, 2], snd (allocate_n 3 new_manager))"
    by (simp add: numeral_3_eq_3 allocate_def new_manager_def Let_def)
  show ?thesis using allocate_n_fresh [OF new_manager_ok a] by simp
qed



end
