(* ===== verification/Operations.thy ===== *)
theory Operations
  imports Qubit_Manager Circuit
begin

text \<open>
  Part P8, the operation recorder (\<open>src/src/api/operations.js\<close>, lines 1--137,
  \<open>createOperations(circuit, manager, onFlush)\<close>). Every operation validates its handles
  against the manager, in argument order, checks the structural preconditions of
  \<open>cnot\<close>, \<open>cz\<close> and \<open>swap\<close>, and appends one node to the circuit it is bound to. The
  operations that take a callback or flush (\<open>m\<close>, \<open>if\<close>, \<open>while\<close>) are interpreted with the
  scope in \<open>Scope.thy\<close>; their recording steps are \<open>record_measure\<close> and \<open>record_block\<close>.
\<close>

text \<open>The calls of the operations object that only record, with their arguments.\<close>

datatype call =
    Ch qubit | Cx qubit | Cy qubit | Cz qubit | Cs qubit | Ct qubit
  | Crx qubit real | Cry qubit real | Crz qubit real | Cu3 qubit real real real
  | Ccnot qubit qubit | Ccz qubit qubit | Crzz qubit qubit real | Cswap qubit qubit
  | Cccx qubit qubit qubit | Creset qubit

text \<open>\<open>validate(q)\<close>.\<close>

definition validate :: "manager \<Rightarrow> qubit \<Rightarrow> error + unit" where
  "validate m q = (if isAllocated q m then Inr () else Inl (UsageError q))"

definition validate_all :: "manager \<Rightarrow> qubit list \<Rightarrow> error + unit" where
  "validate_all m qs = (case find (\<lambda>q. \<not> isAllocated q m) qs of None \<Rightarrow> Inr () | Some q \<Rightarrow> Inl (UsageError q))"

text \<open>A single-qubit operation: validate, then \<open>circuit.addOp(g, q, {params})\<close>.\<close>

definition op1 :: "manager \<Rightarrow> gname \<Rightarrow> qubit \<Rightarrow> real list \<Rightarrow> circuit \<Rightarrow> error + circuit" where
  "op1 m g q ps c = (case validate m q of Inl e \<Rightarrow> Inl e | Inr _ \<Rightarrow> Inr (addOp g (QOne q) ps None None c))"

text \<open>A multi-qubit operation: validate each handle, then the structural check, then append.\<close>

definition opN :: "manager \<Rightarrow> gname \<Rightarrow> qubit list \<Rightarrow> real list \<Rightarrow> error option \<Rightarrow> circuit \<Rightarrow> error + circuit" where
  "opN m g qs ps check c =
     (case validate_all m qs of
        Inl e \<Rightarrow> Inl e
      | Inr _ \<Rightarrow> (case check of Some e \<Rightarrow> Inl e | None \<Rightarrow> Inr (addOp g (QList qs) ps None None c)))"

definition record_call :: "manager \<Rightarrow> call \<Rightarrow> circuit \<Rightarrow> error + circuit" where
  "record_call m cl c =
     (case cl of
        Ch q \<Rightarrow> op1 m H q [] c
      | Cx q \<Rightarrow> op1 m X q [] c
      | Cy q \<Rightarrow> op1 m Y q [] c
      | Cz q \<Rightarrow> op1 m Z q [] c
      | Cs q \<Rightarrow> op1 m S q [] c
      | Ct q \<Rightarrow> op1 m T q [] c
      | Crx q theta \<Rightarrow> op1 m RX q [theta] c
      | Cry q theta \<Rightarrow> op1 m RY q [theta] c
      | Crz q theta \<Rightarrow> op1 m RZ q [theta] c
      | Cu3 q theta phi lam \<Rightarrow> op1 m U3 q [theta, phi, lam] c
      | Ccnot ctrl trgt \<Rightarrow>
          opN m CNOT [ctrl, trgt] [] (if ctrl = trgt then Some (PhysicsError ctrl) else None) c
      | Ccz ctrl trgt \<Rightarrow>
          opN m CZ [ctrl, trgt] [] (if ctrl = trgt then Some (PhysicsError ctrl) else None) c
      | Crzz q1 q2 theta \<Rightarrow> opN m RZZ [q1, q2] [theta] None c
      | Cswap q1 q2 \<Rightarrow> opN m SWAP [q1, q2] [] (if q1 = q2 then Some SwapSelfError else None) c
      | Cccx c1 c2 t \<Rightarrow> opN m CCX [c1, c2, t] [] None c
      | Creset q \<Rightarrow> op1 m RESET q [] c)"

text \<open>The recording half of \<open>m(q)\<close>: validate and append a MEASURE node.\<close>

definition record_measure :: "manager \<Rightarrow> qubit \<Rightarrow> circuit \<Rightarrow> error + circuit" where
  "record_measure m q c = op1 m MEASURE q [] c"

text \<open>The recording half of \<open>if\<close> and \<open>while\<close>: the node with its condition and the snapshot
  of the inner circuit.\<close>

definition record_block :: "gname \<Rightarrow> qubit \<Rightarrow> int \<Rightarrow> circuit \<Rightarrow> circuit \<Rightarrow> circuit" where
  "record_block g q v sub c = addOp g QNull [] (Some (q, v)) (Some (getInstructions sub)) c"

section \<open>Lemmas\<close>

text \<open>The handles a call validates, in validation order.\<close>

fun call_qubits :: "call \<Rightarrow> qubit list" where
  "call_qubits (Ch q) = [q]" | "call_qubits (Cx q) = [q]" | "call_qubits (Cy q) = [q]"
| "call_qubits (Cz q) = [q]" | "call_qubits (Cs q) = [q]" | "call_qubits (Ct q) = [q]"
| "call_qubits (Crx q _) = [q]" | "call_qubits (Cry q _) = [q]" | "call_qubits (Crz q _) = [q]"
| "call_qubits (Cu3 q _ _ _) = [q]" | "call_qubits (Ccnot a b) = [a, b]" | "call_qubits (Ccz a b) = [a, b]"
| "call_qubits (Crzz a b _) = [a, b]" | "call_qubits (Cswap a b) = [a, b]"
| "call_qubits (Cccx a b c) = [a, b, c]" | "call_qubits (Creset q) = [q]"

text \<open>The preconditions under which a call records: allocated handles, distinct for \<open>cnot\<close>,
  \<open>cz\<close> and \<open>swap\<close>.\<close>

definition call_ok :: "manager \<Rightarrow> call \<Rightarrow> bool" where
  "call_ok m cl \<longleftrightarrow>
     list_all (\<lambda>q. isAllocated q m) (call_qubits cl) \<and>
     (case cl of Ccnot a b \<Rightarrow> a \<noteq> b | Ccz a b \<Rightarrow> a \<noteq> b | Cswap a b \<Rightarrow> a \<noteq> b | _ \<Rightarrow> True)"

text \<open>The node a call appends.\<close>

fun call_instr :: "call \<Rightarrow> instr" where
  "call_instr (Ch q) = Instr H (QOne q) [] None None"
| "call_instr (Cx q) = Instr X (QOne q) [] None None"
| "call_instr (Cy q) = Instr Y (QOne q) [] None None"
| "call_instr (Cz q) = Instr Z (QOne q) [] None None"
| "call_instr (Cs q) = Instr S (QOne q) [] None None"
| "call_instr (Ct q) = Instr T (QOne q) [] None None"
| "call_instr (Crx q theta) = Instr RX (QOne q) [theta] None None"
| "call_instr (Cry q theta) = Instr RY (QOne q) [theta] None None"
| "call_instr (Crz q theta) = Instr RZ (QOne q) [theta] None None"
| "call_instr (Cu3 q theta phi lam) = Instr U3 (QOne q) [theta, phi, lam] None None"
| "call_instr (Ccnot a b) = Instr CNOT (QList [a, b]) [] None None"
| "call_instr (Ccz a b) = Instr CZ (QList [a, b]) [] None None"
| "call_instr (Crzz a b theta) = Instr RZZ (QList [a, b]) [theta] None None"
| "call_instr (Cswap a b) = Instr SWAP (QList [a, b]) [] None None"
| "call_instr (Cccx a b c) = Instr CCX (QList [a, b, c]) [] None None"
| "call_instr (Creset q) = Instr RESET (QOne q) [] None None"

lemma op1_eq: "op1 m g q ps c = (case validate_all m [q] of Inl e \<Rightarrow> Inl e | Inr _ \<Rightarrow> Inr (addOp g (QOne q) ps None None c))"
  by (simp add: op1_def validate_def validate_all_def)

lemma record_call_ok:
  assumes "call_ok m cl"
  shows "record_call m cl c = Inr (c\<lparr>ops := ops c @ [call_instr cl]\<rparr>)"
proof -
  have "find (\<lambda>q. \<not> isAllocated q m) (call_qubits cl) = None"
    using assms by (auto simp: call_ok_def find_None_iff list_all_iff)
  then have "validate_all m (call_qubits cl) = Inr ()" by (simp add: validate_all_def)
  then show ?thesis
    using assms by (cases cl) (auto simp: record_call_def op1_eq opN_def addOp_def call_ok_def)
qed

lemma qref_list_call_instr: "qref_list (qubit (call_instr cl)) = map Some (call_qubits cl)"
  by (cases cl) simp_all

text \<open>
  C17. A call that names a handle the manager has not allocated fails with a UsageError
  for the first such handle in argument order, before any structural check and without
  recording anything.
\<close>

theorem record_call_usage_error:
  assumes "find (\<lambda>q. \<not> isAllocated q m) (call_qubits cl) = Some q"
  shows "record_call m cl c = Inl (UsageError q)"
  using assms
  by (cases cl) (auto simp: record_call_def op1_eq opN_def validate_all_def)

theorem record_call_usage_error_witness:
  "record_call new_manager (Ccnot 0 1) new_circuit = Inl (UsageError 0)"
  by (rule record_call_usage_error) (simp add: isAllocated_def new_manager_def)

text \<open>
  C18. A call whose handles are all allocated, and whose two handles differ for \<open>cnot\<close>,
  \<open>cz\<close> and \<open>swap\<close>, appends exactly one unconditioned node naming the call's handles in
  argument order. \<open>rzz\<close> and \<open>ccx\<close> check no distinctness: \<open>ccx(c, c2, c)\<close> is recorded.
\<close>

theorem record_call_appends:
  assumes "\<forall>q\<in>set (call_qubits cl). isAllocated q m"
    and "\<forall>a b. cl = Ccnot a b \<or> cl = Ccz a b \<or> cl = Cswap a b \<longrightarrow> a \<noteq> b"
  shows "\<exists>i. record_call m cl c = Inr (c\<lparr>ops := ops c @ [i]\<rparr>) \<and>
             qref_list (qubit i) = map Some (call_qubits cl) \<and> condition i = None \<and> body i = None"
proof -
  have "call_ok m cl"
    using assms by (cases cl) (auto simp: call_ok_def list_all_iff)
  then show ?thesis
    using record_call_ok qref_list_call_instr by (cases cl) fastforce+
qed

theorem record_call_appends_witness:
  "isAllocated 0 \<lparr>registry = {0, 1}, nextSymbol = 2\<rparr> \<and> isAllocated 1 \<lparr>registry = {0, 1}, nextSymbol = 2\<rparr> \<and>
   (\<exists>i. record_call \<lparr>registry = {0, 1}, nextSymbol = 2\<rparr> (Cccx 0 1 0) new_circuit = Inr \<lparr>ops = [i]\<rparr> \<and>
        qref_list (qubit i) = [Some 0, Some 1, Some 0] \<and> condition i = None \<and> body i = None)"
  using record_call_appends [of "Cccx 0 1 0" "\<lparr>registry = {0, 1}, nextSymbol = 2\<rparr>" new_circuit]
  by (simp add: isAllocated_def new_circuit_def)

end
