(* ===== verification/Transpiler.thy ===== *)
theory Transpiler
  imports Circuit
begin

text \<open>
  Part P5, the transpiler (\<open>src/unnamed/part_005\<close>, \<open>compiler/transpiler.js\<close>, class
  \<open>Transpiler\<close>). \<open>#decompose\<close> rewrites H, X, Y, Z, RX, RY, RZ into one U3, SWAP into three
  CNOTs and CZ into U3, CNOT, U3; every other node is passed through unchanged (the same
  object). The nodes it builds have no \<open>condition\<close> or \<open>body\<close>, read as \<open>null\<close>. The
  destructuring \<open>const [q1, q2] = qubit\<close> throws a TypeError when \<open>qubit\<close> is not iterable;
  an array shorter than two would give \<open>undefined\<close> handles, which the simulator rejects
  with a TypeError, so the model reports the TypeError at the decomposition.
\<close>

definition decompose :: "instr \<Rightarrow> error + instr list" where
  "decompose op =
     (let g = gate op; q = qubit op; ps = params op in
      case g of
        H \<Rightarrow> Inr [Instr U3 q [pi / 2, 0, pi] None None]
      | X \<Rightarrow> Inr [Instr U3 q [pi, 0, pi] None None]
      | Y \<Rightarrow> Inr [Instr U3 q [pi, pi / 2, pi / 2] None None]
      | Z \<Rightarrow> Inr [Instr U3 q [0, 0, pi] None None]
      | RX \<Rightarrow> Inr [Instr U3 q [hd ps, - pi / 2, pi / 2] None None]
      | RY \<Rightarrow> Inr [Instr U3 q [hd ps, 0, 0] None None]
      | RZ \<Rightarrow> Inr [Instr U3 q [0, 0, hd ps] None None]
      | SWAP \<Rightarrow>
          (case q of
             QList (q1 # q2 # _) \<Rightarrow>
               Inr [Instr CNOT (QList [q1, q2]) [] None None,
                    Instr CNOT (QList [q2, q1]) [] None None,
                    Instr CNOT (QList [q1, q2]) [] None None]
           | _ \<Rightarrow> Inl TypeError)
      | CZ \<Rightarrow>
          (case q of
             QList (ctrl # trgt # _) \<Rightarrow>
               Inr [Instr U3 (QOne trgt) [pi / 2, 0, pi] None None,
                    Instr CNOT (QList [ctrl, trgt]) [] None None,
                    Instr U3 (QOne trgt) [pi / 2, 0, pi] None None]
           | _ \<Rightarrow> Inl TypeError)
      | _ \<Rightarrow> Inr [op])"

text \<open>\<open>Transpiler.transpile(instructions)\<close>: the decompositions in order; the first throw ends it.\<close>

primrec transpile :: "instr list \<Rightarrow> error + instr list" where
  "transpile [] = Inr []"
| "transpile (op # rest) =
     (case decompose op of
        Inl e \<Rightarrow> Inl e
      | Inr d \<Rightarrow> (case transpile rest of Inl e \<Rightarrow> Inl e | Inr r \<Rightarrow> Inr (d @ r)))"

section \<open>Lemmas\<close>

definition high_level :: "gname set" where
  "high_level = {H, X, Y, Z, RX, RY, RZ, SWAP, CZ}"

lemma decompose_native:
  "decompose op = Inr d \<Longrightarrow> \<forall>op' \<in> set d. gate op' \<notin> high_level"
  by (cases "gate op")
     (auto simp: decompose_def high_level_def Let_def split: qref.splits list.splits)

text \<open>
  C8. A successful transpilation contains no high-level gate: no H, X, Y, Z, RX, RY, RZ,
  SWAP or CZ node is left at the top level (the bodies of IF and WHILE are not visited).
\<close>

theorem transpile_native:
  "transpile instrs = Inr out \<Longrightarrow> \<forall>op \<in> set out. gate op \<notin> high_level"
proof (induction instrs arbitrary: out)
  case Nil
  then show ?case by simp
next
  case (Cons op rest)
  then show ?case
    using decompose_native [of op] by (auto split: sum.splits)
qed

theorem transpile_native_witness:
  "\<exists>out. transpile [Instr H (QOne 0) [] None None, Instr SWAP (QList [0, 1]) [] None None] = Inr out \<and>
         (\<forall>op \<in> set out. gate op \<notin> high_level)"
proof -
  let ?out = "[Instr U3 (QOne 0) [pi / 2, 0, pi] None None, Instr CNOT (QList [0, 1]) [] None None,
               Instr CNOT (QList [1, 0]) [] None None, Instr CNOT (QList [0, 1]) [] None None]"
  have t: "transpile [Instr H (QOne 0) [] None None, Instr SWAP (QList [0, 1]) [] None None] = Inr ?out"
    by (simp add: decompose_def)
  show ?thesis using transpile_native [OF t] t by blast
qed

lemma cos_sin_pi_quarter: "cos (pi / 4) = INV_SQRT2" "sin (pi / 4) = INV_SQRT2"
  by (simp_all add: INV_SQRT2_def cos_45 sin_45 real_div_sqrt)

lemma GATES_U3: "GATES U3 (a # b # c # rest) = Some (U3_mat a b c)"
  by simp

lemma U3_H: "U3_mat (pi / 2) 0 pi = H_mat"
  by (simp add: U3_mat_def H_mat_def cos_sin_pi_quarter)

lemma U3_X: "U3_mat pi 0 pi = X_mat"
  by (simp add: U3_mat_def X_mat_def)

lemma U3_Y: "U3_mat pi (pi / 2) (pi / 2) = Y_mat"
  by (simp add: U3_mat_def Y_mat_def)

lemma U3_Z: "U3_mat 0 0 pi = Z_mat"
  by (simp add: U3_mat_def Z_mat_def)

lemma U3_RX: "U3_mat theta (- (pi / 2)) (pi / 2) = RX_mat theta"
  by (simp add: U3_mat_def RX_mat_def Let_def)

lemma U3_RY: "U3_mat theta 0 0 = RY_mat theta"
  by (simp add: U3_mat_def RY_mat_def Let_def)

text \<open>
  C9. The single-qubit decompositions are exact: for H, X, Y, Z, RX and RY with the
  parameters their catalog matrix needs, \<open>#decompose\<close> yields one U3 node on the same
  qubit whose catalog matrix is the same matrix, entry for entry.
\<close>

theorem decompose_single_exact:
  assumes "g \<in> {H, X, Y, Z, RX, RY}" and "GATES g ps = Some m"
  shows "\<exists>ps'. decompose (Instr g q ps cnd bdy) = Inr [Instr U3 q ps' None None] \<and> GATES U3 ps' = Some m"
proof -
  have d: "decompose (Instr g q ps cnd bdy) =
           Inr [Instr U3 q (case g of H \<Rightarrow> [pi / 2, 0, pi] | X \<Rightarrow> [pi, 0, pi]
                                | Y \<Rightarrow> [pi, pi / 2, pi / 2] | Z \<Rightarrow> [0, 0, pi]
                                | RX \<Rightarrow> [hd ps, - pi / 2, pi / 2] | _ \<Rightarrow> [hd ps, 0, 0]) None None]"
    using assms(1) by (auto simp: decompose_def)
  have "GATES U3 (case g of H \<Rightarrow> [pi / 2, 0, pi] | X \<Rightarrow> [pi, 0, pi]
                   | Y \<Rightarrow> [pi, pi / 2, pi / 2] | Z \<Rightarrow> [0, 0, pi]
                   | RX \<Rightarrow> [hd ps, - pi / 2, pi / 2] | _ \<Rightarrow> [hd ps, 0, 0]) = Some m"
    using assms by (cases ps) (auto simp: GATES_U3 U3_H U3_X U3_Y U3_Z U3_RX U3_RY)
  with d show ?thesis by blast
qed

theorem decompose_single_exact_witness:
  "\<exists>ps'. decompose (Instr RX (QOne 0) [pi] None None) = Inr [Instr U3 (QOne 0) ps' None None] \<and>
         GATES U3 ps' = Some (RX_mat pi)"
  using decompose_single_exact [of RX "[pi]" "RX_mat pi" "QOne 0" None None] by simp

text \<open>
  C10. The RZ decomposition equals RZ only up to the global phase \<open>e^{i\<theta>/2}\<close>:
  \<open>U3(0, 0, \<theta>) = diag(1, e^{i\<theta>})\<close> while \<open>RZ(\<theta>) = diag(e^{-i\<theta>/2}, e^{i\<theta>/2})\<close>.
\<close>

theorem decompose_RZ_phase:
  "decompose (Instr RZ q (theta # ps) cnd bdy) = Inr [Instr U3 q [0, 0, theta] None None] \<and>
   mat_entry (U3_mat 0 0 theta) 2 0 0 = cis (theta / 2) * mat_entry (RZ_mat theta) 2 0 0 \<and>
   mat_entry (U3_mat 0 0 theta) 2 0 1 = cis (theta / 2) * mat_entry (RZ_mat theta) 2 0 1 \<and>
   mat_entry (U3_mat 0 0 theta) 2 1 0 = cis (theta / 2) * mat_entry (RZ_mat theta) 2 1 0 \<and>
   mat_entry (U3_mat 0 0 theta) 2 1 1 = cis (theta / 2) * mat_entry (RZ_mat theta) 2 1 1"
  by (simp add: decompose_def U3_mat_def RZ_mat_def mat_entry_def complex_eq_iff cis.ctr
      cos_add [symmetric] sin_add [symmetric] algebra_simps Let_def)
      (simp add: cos_add [where x = "theta / 2" and y = "theta / 2", simplified]
                 sin_add [where x = "theta / 2" and y = "theta / 2", simplified] power2_eq_square
                 sin_squared_eq algebra_simps)

end
