(* ===== verification/Compiler.thy ===== *)
theory Compiler
  imports Optimizer Transpiler
begin

text \<open>
  Part P6, the compiler (\<open>src/src/compiler/optimizer.js\<close>, lines 161--179, class
  \<open>Compiler\<close>): \<open>prune\<close>, \<open>transpile\<close>, \<open>prune\<close>.
\<close>

definition compile :: "instr list \<Rightarrow> error + instr list" where
  "compile instructions =
     (case transpile (Optimizer_prune instructions) of
        Inl e \<Rightarrow> Inl e
      | Inr processed \<Rightarrow> Inr (Optimizer_prune processed))"


end
