(* ===== verification/Simulator_Run.thy ===== *)
theory Simulator_Run
  imports Simulator
begin

text \<open>
  Termination of the interpreter \<open>run\<close> (\<open>src/src/core/simulator.js\<close>, method \<open>run\<close>).
  Every instruction but WHILE either runs a body that is part of the instruction or moves
  to the rest of the list, so \<open>run\<close> returns on every list in which no WHILE occurs, at any
  depth; a WHILE whose guard holds and whose body leaves the cached result unchanged never
  returns, which is the value \<open>None\<close> of the model.
\<close>

text \<open>No WHILE node occurs in an instruction or in its body, at any depth.\<close>


primrec while_free :: "instr \<Rightarrow> bool" where
  "while_free (Instr g q ps c b) = (g \<noteq> WHILE \<and> pred_option (list_all while_free) b)"

lemma run_Nil: "run s [] = Some (Inr s)"
  by (simp add: run.simps)

lemma exec_op_unknown:
  assumes "qubitMap s q = None" and "qubit i = QOne q"
  shows "exec_op s i = Inl TypeError"
  using assms
  by (simp add: exec_op_def measure_sim_def getProb1_def applyGate_def qubit_bit_def Let_def)

lemma run_unknown:
  assumes "qubitMap s q = None" and "qubit i = QOne q" and "gate i \<noteq> IF" and "gate i \<noteq> WHILE"
  shows "run s (i # rest) = Some (Inl TypeError)"
  using assms by (simp add: run.simps exec_op_unknown)

lemma run_cons_step:
  assumes "gate op \<noteq> IF" and "gate op \<noteq> WHILE"
  shows "run s (op # rest) = (case exec_op s op of Inl e \<Rightarrow> Some (Inl e) | Inr s' \<Rightarrow> run s' rest)"
  using assms by (simp add: run.simps)

lemma run_cons_IF:
  assumes "gate op = IF"
  shows "run s (op # rest) =
           (case condition op of
              None \<Rightarrow> Some (Inl TypeError)
            | Some (cq, v) \<Rightarrow>
                (if results s cq = Some v then
                   (case body op of
                      None \<Rightarrow> Some (Inl TypeError)
                    | Some b \<Rightarrow> Option.bind (run s b) (\<lambda>r. case r of Inl e \<Rightarrow> Some (Inl e) | Inr s' \<Rightarrow> run s' rest))
                 else run s rest))"
  using assms by (subst run.simps) simp

text \<open>
  C21. \<open>run\<close> returns (a value or an error) on every instruction list with no WHILE node,
  from every simulator state: without WHILE the interpreter does not diverge.
\<close>

theorem run_while_free_total:
  "list_all while_free ins \<Longrightarrow> \<exists>y. run s ins = Some y"
proof (induction "size_list size ins" arbitrary: ins s rule: less_induct)
  case less
  show ?case
  proof (cases "ins")
    case Nil
    then show ?thesis by (simp add: run.simps)
  next
    case (Cons op rest)
    obtain g q ps c b where op: "op = Instr g q ps c b" by (cases op)
    have wr: "list_all while_free rest" and g: "g \<noteq> WHILE" and wb: "pred_option (list_all while_free) b"
      using less.prems Cons op by auto
    have rest_lt: "size_list size rest < size_list size ins" using Cons by simp
    have rest_ok: "\<And>s'. \<exists>y. run s' rest = Some y" using less.hyps [OF rest_lt wr] by blast
    show ?thesis
    proof (cases "g = IF")
      case True
      show ?thesis
      proof (cases "\<exists>cq v bs. c = Some (cq, v) \<and> results s cq = Some v \<and> b = Some bs")
        case True
        then obtain cq v bs where cb: "c = Some (cq, v)" "results s cq = Some v" "b = Some bs" by blast
        have "size_list size bs < size_list size ins" using Cons op cb(3) by simp
        moreover have "list_all while_free bs" using wb cb(3) by simp
        ultimately obtain y where "run s bs = Some y" using less.hyps by blast
        then show ?thesis using \<open>g = IF\<close> Cons op cb rest_ok
          by (cases y) (simp_all add: run_cons_IF)
      next
        case False
        then show ?thesis using \<open>g = IF\<close> Cons op rest_ok
          by (auto simp: run_cons_IF split: option.splits)
      qed
    next
      case False
      then show ?thesis using g Cons op rest_ok
        by (simp add: run_cons_step split: sum.splits)
    qed
  qed
qed

text \<open>
  C22. A WHILE whose guard holds on the cached result and whose body is empty never
  returns: the core has no watchdog, and the interpreter re-evaluates the same guard on
  the same state forever.
\<close>

theorem run_while_spin:
  assumes "results s cq = Some v"
  shows "run s (Instr WHILE q ps (Some (cq, v)) (Some []) # rest) = None"
proof -
  let ?w = "Instr WHILE q ps (Some (cq, v)) (Some []) # rest"
  have "\<forall>s ins y. run s ins = Some y \<longrightarrow> (ins = [] \<longrightarrow> y = Inr s) \<and> \<not> (results s cq = Some v \<and> ins = ?w)"
  proof (induction rule: run.fixp_induct)
    case 1
    have "option.admissible (\<lambda>f. \<forall>x y. f x = Some y \<longrightarrow>
        (snd x = [] \<longrightarrow> y = Inr (fst x)) \<and> \<not> (results (fst x) cq = Some v \<and> snd x = ?w))"
      by (rule option_admissible)
    then show ?case by (simp add: split_paired_All)
  next
    case 2
    then show ?case by simp
  next
    case (3 f)
    show ?case
      apply (intro allI impI conjI)
       apply (simp split: list.splits)
      apply (clarsimp simp: bind_eq_Some_conv)
      subgoal premises p for s y ya
      proof -
        have "ya = Inr s" using 3 p(2) by blast
        then show False using 3 p(1,3) by auto
      qed
      done
  qed
  then show ?thesis using assms by (cases "run s ?w") auto
qed

theorem run_while_free_total_witness:
  "list_all while_free [Instr X (QOne 0) [] None None,
     Instr IF QNull [] (Some (0, 1)) (Some [Instr H (QOne 0) [] None None])] \<and>
   (\<exists>y. run (Simulator [0] None None (\<lambda>_. 0)) [Instr X (QOne 0) [] None None,
     Instr IF QNull [] (Some (0, 1)) (Some [Instr H (QOne 0) [] None None])] = Some y)"
  using run_while_free_total [of "[Instr X (QOne 0) [] None None,
     Instr IF QNull [] (Some (0, 1)) (Some [Instr H (QOne 0) [] None None])]" "Simulator [0] None None (\<lambda>_. 0)"]
  by simp

theorem run_while_spin_witness:
  "results ((Simulator [0] None None (\<lambda>_. 0))\<lparr>results := [0 \<mapsto> 1]\<rparr>) 0 = Some 1 \<and>
   run ((Simulator [0] None None (\<lambda>_. 0))\<lparr>results := [0 \<mapsto> 1]\<rparr>)
     [Instr WHILE QNull [] (Some (0, 1)) (Some [])] = None"
  using run_while_spin [of "(Simulator [0] None None (\<lambda>_. 0))\<lparr>results := [0 \<mapsto> 1]\<rparr>" 0 1 QNull "[]" "[]"]
  by simp

end
