(* ===== verification/Scope.thy ===== *)
theory Scope
  imports Operations Compiler Simulator_Run
begin

text \<open>
  Part P9, the scope entry \<open>Q.use(count, callback, noiseModel)\<close>
  (\<open>src/src/index.js\<close>, lines 10--32). It allocates \<open>count\<close> handles from the process-wide
  manager, builds a simulator over them and an empty outer circuit, and hands the callback
  the handles and a recorder whose flush hook compiles the outer circuit, runs it and
  clears it. In \<open>finally\<close> it flushes once more and releases the handles in order.

  The callback is JavaScript code; it is modelled by the tree \<open>prog\<close> of the calls it makes
  on the recorder. The continuation of \<open>m(q)\<close> is a function of the value \<open>m\<close> returns, so
  a program may branch on measurements. \<open>Raise e\<close> is a callback that throws \<open>e\<close>: an
  error of its own (\<open>CallbackError\<close>), or one of the library code it runs. An IF or WHILE
  carries the program its callback runs on the inner recorder, then the continuation. The values \<open>m\<close> returns are also appended to \<open>observed\<close>, the list a
  callback keeps of what it has seen; nothing in the source reads it.
\<close>

datatype prog =
    Done
  | Raise error
  | Call call prog
  | Meas qubit "int option \<Rightarrow> prog"
  | IfB qubit int prog prog
  | WhileB qubit int prog prog

record scope =
  mgr :: manager
  ssim :: sim
  outer :: circuit
  observed :: "int option list"

text \<open>
  The circuit a recorder is bound to: \<open>None\<close> is the scope's outer circuit, which the flush
  hook reads and clears; \<open>Some c\<close> is the sub-circuit of an IF or WHILE callback.
\<close>

definition target :: "circuit option \<Rightarrow> scope \<Rightarrow> circuit" where
  "target t sc = (case t of None \<Rightarrow> outer sc | Some c \<Rightarrow> c)"

definition set_target :: "circuit option \<Rightarrow> circuit \<Rightarrow> scope \<Rightarrow> circuit option \<times> scope" where
  "set_target t c sc = (case t of None \<Rightarrow> (None, sc\<lparr>outer := c\<rparr>) | Some _ \<Rightarrow> (Some c, sc))"

text \<open>
  \<open>flush(measureQubit)\<close> (lines 16--22): \<open>Compiler.compile\<close>, \<open>sim.run\<close>, \<open>circuit.clear()\<close>,
  then the cached result of the measured qubit. A compile or run error propagates before
  the clear. The value is \<open>None\<close> on divergence of \<open>run\<close>.
\<close>

definition flush :: "qubit option \<Rightarrow> scope \<Rightarrow> ((error + int option) \<times> scope) option" where
  "flush measureQubit sc =
     (case compile (getInstructions (outer sc)) of
        Inl e \<Rightarrow> Some (Inl e, sc)
      | Inr compiled \<Rightarrow>
          (case run (ssim sc) compiled of
             None \<Rightarrow> None
           | Some (Inl e) \<Rightarrow> Some (Inl e, sc)
           | Some (Inr s') \<Rightarrow>
               Some (Inr (case measureQubit of None \<Rightarrow> None | Some q \<Rightarrow> getResult s' q),
                     sc\<lparr>ssim := s', outer := clear (outer sc)\<rparr>)))"

text \<open>
  The callback running against a recorder bound to \<open>t\<close>. The result is the error the
  callback ends with, if any, and the recorder's circuit and the scope after it.
  \<open>if\<close>/\<open>while\<close> (operations.js lines 105--127) validate the condition qubit, run the inner
  callback on a fresh sub-circuit, then append the node with a snapshot of it; \<open>m\<close>
  (lines 129--133) records MEASURE on the recorder's circuit and calls the flush hook,
  which always flushes the outer circuit.
\<close>

primrec exec :: "prog \<Rightarrow> circuit option \<Rightarrow> scope \<Rightarrow> (error option \<times> circuit option \<times> scope) option" where
  "exec Done t sc = Some (None, t, sc)"
| "exec (Raise e) t sc = Some (Some e, t, sc)"
| "exec (Call cl k) t sc =
     (case record_call (mgr sc) cl (target t sc) of
        Inl e \<Rightarrow> Some (Some e, t, sc)
      | Inr c \<Rightarrow> (let (t1, sc1) = set_target t c sc in exec k t1 sc1))"
| "exec (Meas q k) t sc =
     (case record_measure (mgr sc) q (target t sc) of
        Inl e \<Rightarrow> Some (Some e, t, sc)
      | Inr c \<Rightarrow>
          (let (t1, sc1) = set_target t c sc in
           case flush (Some q) sc1 of
             None \<Rightarrow> None
           | Some (Inl e, sc2) \<Rightarrow> Some (Some e, t1, sc2)
           | Some (Inr r, sc2) \<Rightarrow> exec (k r) t1 (sc2\<lparr>observed := observed sc2 @ [r]\<rparr>)))"
| "exec (IfB q v cb k) t sc =
     (case validate (mgr sc) q of
        Inl e \<Rightarrow> Some (Some e, t, sc)
      | Inr _ \<Rightarrow>
          (case exec cb (Some new_circuit) sc of
             None \<Rightarrow> None
           | Some (Some e, _, sc1) \<Rightarrow> Some (Some e, t, sc1)
           | Some (None, t', sc1) \<Rightarrow>
               (let (t2, sc2) = set_target t (record_block IF q v (target t' sc1) (target t sc1)) sc1
                in exec k t2 sc2)))"
| "exec (WhileB q v cb k) t sc =
     (case validate (mgr sc) q of
        Inl e \<Rightarrow> Some (Some e, t, sc)
      | Inr _ \<Rightarrow>
          (case exec cb (Some new_circuit) sc of
             None \<Rightarrow> None
           | Some (Some e, _, sc1) \<Rightarrow> Some (Some e, t, sc1)
           | Some (None, t', sc1) \<Rightarrow>
               (let (t2, sc2) = set_target t (record_block WHILE q v (target t' sc1) (target t sc1)) sc1
                in exec k t2 sc2)))"

text \<open>\<open>qubits.forEach((q) => manager.release(q, sim))\<close>: the first failure throws, and the
  handles released before it stay released.\<close>

primrec release_all :: "qubit list \<Rightarrow> sim \<Rightarrow> manager \<Rightarrow> error option \<times> manager" where
  "release_all [] s m = (None, m)"
| "release_all (q # qs) s m =
     (case release q s m of Inl e \<Rightarrow> (Some e, m) | Inr m' \<Rightarrow> release_all qs s m')"

text \<open>
  The \<open>finally\<close> block (lines 28--31): flush, then release. An error thrown there replaces
  the callback's error; when it completes, the callback's error propagates.
\<close>

definition finish :: "qubit list \<Rightarrow> error option \<Rightarrow> scope \<Rightarrow> (error option \<times> manager) option" where
  "finish qubits err sc =
     (case flush None sc of
        None \<Rightarrow> None
      | Some (Inl e, sc1) \<Rightarrow> Some (Some e, mgr sc1)
      | Some (Inr _, sc1) \<Rightarrow>
          (case release_all qubits (ssim sc1) (mgr sc1) of
             (Some e, m') \<Rightarrow> Some (Some e, m')
           | (None, m') \<Rightarrow> Some (err, m')))"

text \<open>\<open>Q.use(count, callback, noiseModel)\<close>: the error the call throws, if any, and the
  process-wide manager afterwards; \<open>None\<close> when a flush does not return.\<close>

definition use_scope :: "nat \<Rightarrow> (qubit list \<Rightarrow> prog) \<Rightarrow> noise_model option \<Rightarrow> (nat \<Rightarrow> real)
    \<Rightarrow> manager \<Rightarrow> (error option \<times> manager) option" where
  "use_scope count callback noise r m =
     (let (qubits, m1) = allocate_n count m;
          sc0 = \<lparr>mgr = m1, ssim = Simulator qubits noise None r, outer = new_circuit, observed = []\<rparr>
      in case exec (callback qubits) None sc0 of
           None \<Rightarrow> None
         | Some (err, _, sc1) \<Rightarrow> finish qubits err sc1)"

section \<open>Lemmas\<close>

lemma compile_Nil: "compile [] = Inr []"
  by (simp add: compile_def Optimizer_prune_def)

lemma flush_empty:
  assumes "ops (outer sc) = []"
  shows "flush mq sc = Some (Inr (case mq of None \<Rightarrow> None | Some q \<Rightarrow> getResult (ssim sc) q), sc)"
  using assms by (simp add: flush_def getInstructions_def compile_Nil run_Nil clear_def)

lemma compile_X:
  "\<exists>is. compile [Instr X (QOne q) [] None None] = Inr is \<and> is \<noteq> [] \<and>
     (\<forall>i\<in>set is. qubit i = QOne q \<and> gate i \<noteq> IF \<and> gate i \<noteq> WHILE)"
  apply (simp add: compile_def decompose_def Optimizer_prune_def opt_step_def isIdentity_def
      findCommutingPartner_def push_op_def canCommute_def selfInverses_def removeFromWires_def
      COMMUTATION_RULES_def set_gate_def js_rem_below EPSILON_def pi_ge_two)
  using pi_ge_two by linarith

text \<open>
  C15. The recorder validates against the process-wide manager, not against the scope: a
  handle still live in an enclosing scope passes \<open>validate\<close>, is recorded, and the final
  flush then fails with the simulator's TypeError, so the scope throws TypeError (not the
  UsageError the error design names) and none of its own handles is released.
\<close>

theorem use_scope_foreign_handle:
  assumes "manager_ok m" and "isAllocated q m"
  shows "use_scope n (\<lambda>qs. Call (Cx q) Done) noise r m = Some (Some TypeError, snd (allocate_n n m))"
proof -
  obtain qs m1 where a: "allocate_n n m = (qs, m1)" by (cases "allocate_n n m")
  note p = allocate_n_props [OF assms(1) a]
  have "q < nextSymbol m" using assms unfolding manager_ok_def isAllocated_def by blast
  then have fresh: "q \<notin> set qs" using p by fastforce
  have alloc: "isAllocated q m1" using assms(2) p by (simp add: isAllocated_def)
  define s0 where "s0 = Simulator qs noise None r"
  define sc0 where "sc0 = \<lparr>mgr = m1, ssim = s0, outer = new_circuit, observed = []\<rparr>"
  have rec: "record_call m1 (Cx q) new_circuit = Inr (addOp X (QOne q) [] None None new_circuit)"
    using alloc by (simp add: record_call_def op1_def validate_def)
  have ex: "exec (Call (Cx q) Done) None sc0 = Some (None, None, sc0\<lparr>outer := addOp X (QOne q) [] None None new_circuit\<rparr>)"
    using rec by (simp add: sc0_def target_def set_target_def)
  obtain cis where c: "compile [Instr X (QOne q) [] None None] = Inr cis" and ne: "cis \<noteq> []"
    and g: "\<forall>i\<in>set cis. qubit i = QOne q \<and> gate i \<noteq> IF \<and> gate i \<noteq> WHILE"
    using compile_X by blast
  obtain i rest where cis: "cis = i # rest" using ne by (cases cis) auto
  have "qubitMap s0 q = None" using fresh by (simp add: s0_def Simulator_def position_map_None)
  then have "run s0 cis = Some (Inl TypeError)" using g cis by (simp add: run_unknown)
  then have "finish qs None (sc0\<lparr>outer := addOp X (QOne q) [] None None new_circuit\<rparr>) = Some (Some TypeError, m1)"
    using c by (simp add: finish_def flush_def getInstructions_def addOp_def new_circuit_def sc0_def)
  then show ?thesis using ex a by (simp add: use_scope_def sc0_def s0_def)
qed

theorem use_scope_foreign_handle_witness:
  "manager_ok \<lparr>registry = {0}, nextSymbol = 1\<rparr> \<and> isAllocated 0 \<lparr>registry = {0}, nextSymbol = 1\<rparr> \<and>
   use_scope 1 (\<lambda>qs. Call (Cx 0) Done) None (\<lambda>_. 0) \<lparr>registry = {0}, nextSymbol = 1\<rparr> =
     Some (Some TypeError, \<lparr>registry = {0, 1}, nextSymbol = 2\<rparr>)"
proof -
  have ok: "manager_ok \<lparr>registry = {0}, nextSymbol = 1\<rparr>" "isAllocated 0 \<lparr>registry = {0}, nextSymbol = 1\<rparr>"
    by (simp_all add: manager_ok_def isAllocated_def)
  have "snd (allocate_n 1 \<lparr>registry = {0}, nextSymbol = 1\<rparr>) = \<lparr>registry = {0, 1}, nextSymbol = 2\<rparr>"
    by (simp add: allocate_def insert_commute)
  then show ?thesis using ok use_scope_foreign_handle [OF ok, of 1 None "\<lambda>_. 0"] by simp
qed

lemma release_all_zero_prefix:
  assumes "\<forall>p\<in>set pre. isZero s p = Inr True"
  shows "release_all (pre @ rest) s m = release_all rest s (m\<lparr>registry := registry m - set pre\<rparr>)"
  using assms by (induction pre arbitrary: m) (simp_all add: release_def Diff_insert2 [symmetric])

text \<open>
  C14. Scope safety. When the final flush succeeds and the handles released before \<open>q\<close>
  are in \<open>|0\<rangle>\<close> while \<open>q\<close> is not (its probability of 1 is at least the effective
  epsilon), the scope ends with a ReleaseError naming \<open>q\<close>, whatever error the callback
  ended with; the handles before \<open>q\<close> are released and \<open>q\<close> and those after it stay live.
\<close>

theorem finish_release_error:
  assumes "flush None sc = Some (Inr r, sc1)"
    and "\<forall>p\<in>set pre. \<exists>k. qubitMap (ssim sc1) p = Some k \<and>
           prob1_of (2 ^ k) (entries (ssim sc1)) < getEffectiveEpsilon (ssim sc1)"
    and "qubitMap (ssim sc1) q = Some k"
    and "getEffectiveEpsilon (ssim sc1) \<le> prob1_of (2 ^ k) (entries (ssim sc1))"
  shows "finish (pre @ q # post) err sc =
           Some (Some (ReleaseError q), (mgr sc1)\<lparr>registry := registry (mgr sc1) - set pre\<rparr>)"
proof -
  have "\<forall>p\<in>set pre. isZero (ssim sc1) p = Inr True" using assms(2) isZero_eq by fastforce
  moreover have "isZero (ssim sc1) q = Inr False" using assms(3,4) by (simp add: isZero_eq)
  ultimately show ?thesis
    using assms(1) by (simp add: finish_def release_all_zero_prefix release_def)
qed

theorem finish_release_error_witness:
  "finish [0, 1] None
     \<lparr>mgr = \<lparr>registry = {0, 1}, nextSymbol = 2\<rparr>,
      ssim = (Simulator [0, 1] None None (\<lambda>_. 0))\<lparr>indices := [2], amplitudes := [1, 0]\<rparr>,
      outer = new_circuit, observed = []\<rparr> =
   Some (Some (ReleaseError 1), \<lparr>registry = {1}, nextSymbol = 2\<rparr>)"
proof -
  define sc where "sc = \<lparr>mgr = \<lparr>registry = {0::nat, 1}, nextSymbol = 2\<rparr>,
      ssim = (Simulator [0, 1] None None (\<lambda>_. 0))\<lparr>indices := [2], amplitudes := [1, 0]\<rparr>,
      outer = new_circuit, observed = []\<rparr>"
  have f: "flush None sc = Some (Inr None, sc)" by (simp add: flush_empty sc_def new_circuit_def)
  have m: "qubitMap (ssim sc) 0 = Some 0" "qubitMap (ssim sc) 1 = Some 1"
    by (simp_all add: sc_def Simulator_def position_map_def)
  have e: "entries (ssim sc) = [(2, 1)]"
    by (simp add: sc_def Simulator_def entries_def view_def slot_amp_def one_complex.code)
  have eps: "getEffectiveEpsilon (ssim sc) = 1 / 10 ^ 13"
    by (simp add: sc_def Simulator_def getEffectiveEpsilon_def prune_threshold_def prune_base_def)
  have "finish ([0] @ 1 # []) None sc = Some (Some (ReleaseError 1), (mgr sc)\<lparr>registry := registry (mgr sc) - set [0]\<rparr>)"
    by (rule finish_release_error [OF f, where k = 1]) (use m in \<open>simp_all add: e eps prob1_of_def norm_sq_def\<close>)
  then show ?thesis by (simp add: sc_def insert_Diff_if)
qed



end
