(* ===== verification/Algorithms.thy ===== *)
theory Algorithms
  imports Scope
begin

text \<open>
  Part P10, the algorithm library (\<open>src/unnamed/part_003\<close>, \<open>api/algorithms.js\<close>).
  Each entry point is a client of the recorder: it issues recorder calls and, for those
  that measure, returns the values \<open>m\<close> gave. A call sequence is a \<open>call list\<close>; a routine
  that measures is a \<open>prog\<close> built on a continuation \<open>k\<close> that receives what the routine
  returns. The user-supplied oracles and controlled unitaries are the calls they issue:
  \<open>oracle\<close> is a fixed call list (the same calls on every Grover iteration), \<open>controlledU\<close>
  a function of its control, targets and power.
\<close>

text \<open>Statements executed in order, then the rest of the callback.\<close>

definition calls :: "call list \<Rightarrow> prog \<Rightarrow> prog" where
  "calls cs k = foldr Call cs k"

text \<open>\<open>qubits.map((q) => qops.m(q))\<close>: measure in order and return the list of results.\<close>

primrec measure_all :: "qubit list \<Rightarrow> (int option list \<Rightarrow> prog) \<Rightarrow> prog" where
  "measure_all [] k = k []"
| "measure_all (q # qs) k = Meas q (\<lambda>r. measure_all qs (\<lambda>rs. k (r # rs)))"

subsection \<open>Grover search (lines 7--27)\<close>

text \<open>\<open>Math.floor((Math.PI / 4) * Math.sqrt(Math.pow(2, qubits.length)))\<close>.\<close>

definition grover_iterations :: "nat \<Rightarrow> nat" where
  "grover_iterations n = nat \<lfloor>pi / 4 * sqrt (2 ^ n)\<rfloor>"

text \<open>
  One diffusion step (lines 17--23): H and X on every qubit, CZ on the last two, X and H
  again. With fewer than two qubits \<open>qubits[qubits.length - 2]\<close> is \<open>undefined\<close>, and the
  \<open>cz\<close> call throws the UsageError of the handle \<open>undefined\<close>; \<open>None\<close> is that case.
\<close>

definition grover_diffusion :: "qubit list \<Rightarrow> call list option" where
  "grover_diffusion qubits =
     (let n = length qubits in
      if n < 2 then None
      else Some (map Ch qubits @ map Cx qubits @ [Ccz (qubits ! (n - 2)) (qubits ! (n - 1))] @
                 map Cx qubits @ map Ch qubits))"

text \<open>The iterations of lines 14--24: the oracle's calls, then the diffusion.\<close>

primrec grover_loop :: "nat \<Rightarrow> qubit list \<Rightarrow> call list \<Rightarrow> prog \<Rightarrow> prog" where
  "grover_loop 0 qubits oracle k = k"
| "grover_loop (Suc i) qubits oracle k =
     calls oracle
       (case grover_diffusion qubits of
          None \<Rightarrow> calls (map Ch qubits @ map Cx qubits) (Raise UsageErrorUndefined)
        | Some d \<Rightarrow> calls d (grover_loop i qubits oracle k))"

definition runGrover :: "qubit list \<Rightarrow> call list \<Rightarrow> (int option list \<Rightarrow> prog) \<Rightarrow> prog" where
  "runGrover qubits oracle k =
     calls (map Ch qubits)
       (grover_loop (grover_iterations (length qubits)) qubits oracle (measure_all qubits k))"

subsection \<open>Iterative phase estimation (lines 37--65)\<close>

text \<open>
  One round for exponent \<open>kk\<close> with the bits measured so far: reset and H on the auxiliary
  qubit, an RZ correction \<open>-\<pi>/2^(i+1)\<close> for every earlier bit equal to 1, the controlled
  unitary to the power \<open>2^kk\<close>, H, and a measurement whose result is pushed.
\<close>

primrec ipe_loop :: "qubit \<Rightarrow> qubit \<Rightarrow> (qubit \<Rightarrow> qubit \<Rightarrow> nat \<Rightarrow> call list) \<Rightarrow> nat list
    \<Rightarrow> int option list \<Rightarrow> (int option list \<Rightarrow> prog) \<Rightarrow> prog" where
  "ipe_loop aux trgt controlledU [] phaseBits k = k phaseBits"
| "ipe_loop aux trgt controlledU (kk # ks) phaseBits k =
     calls ([Creset aux, Ch aux] @
            concat (map (\<lambda>i. if phaseBits ! i = Some 1 then [Crz aux (- pi / 2 ^ (i + 1))] else [])
                        [0..<length phaseBits]) @
            controlledU aux trgt (2 ^ kk) @ [Ch aux])
       (Meas aux (\<lambda>bit. ipe_loop aux trgt controlledU ks (phaseBits @ [bit]) k))"

definition iterativePhaseEstimation :: "qubit \<Rightarrow> qubit \<Rightarrow> nat \<Rightarrow> (qubit \<Rightarrow> qubit \<Rightarrow> nat \<Rightarrow> call list)
    \<Rightarrow> (int option list \<Rightarrow> prog) \<Rightarrow> prog" where
  "iterativePhaseEstimation aux trgt precision controlledU k =
     ipe_loop aux trgt controlledU (rev [0..<precision]) [] k"

subsection \<open>Variational ansatz and QAOA (lines 73--105)\<close>

text \<open>
  One layer of \<open>vqeAnsatz\<close> reading the angles from \<open>base\<close>: RY and RZ on every qubit, then
  a CNOT ladder. The source's \<open>params\<close> is \<open>angles\<close> here (\<open>params\<close> is the selector of
  \<open>instr\<close>). \<open>params[pIdx++]\<close> past the end reads \<open>undefined\<close>, which is recorded as an
  angle; \<open>vqeAnsatz\<close> is \<open>None\<close> exactly when that happens.
\<close>

definition vqe_layer :: "qubit list \<Rightarrow> real list \<Rightarrow> nat \<Rightarrow> call list" where
  "vqe_layer qubits angles base =
     concat (map (\<lambda>i. [Cry (qubits ! i) (angles ! (base + 2 * i)), Crz (qubits ! i) (angles ! (base + 2 * i + 1))])
                 [0..<length qubits]) @
     map (\<lambda>i. Ccnot (qubits ! i) (qubits ! (i + 1))) [0..<length qubits - 1]"

definition vqeAnsatz :: "qubit list \<Rightarrow> real list \<Rightarrow> call list option" where
  "vqeAnsatz qubits angles =
     (if length angles < 4 * length qubits then None
      else Some (vqe_layer qubits angles 0 @ vqe_layer qubits angles (2 * length qubits)))"

definition qaoaLayer :: "qubit list \<Rightarrow> (qubit \<times> qubit) list \<Rightarrow> real \<Rightarrow> real \<Rightarrow> call list" where
  "qaoaLayer qubits edges gamma beta =
     concat (map (\<lambda>(u, v). [Ccnot u v, Crz v (2 * gamma), Ccnot u v]) edges) @
     map (\<lambda>q. Crx q (2 * beta)) qubits"

subsection \<open>Quantum Fourier transform (lines 110--148)\<close>

text \<open>The controlled phase of lines 115--121 (and 139--144): U3 phases around two CNOTs.\<close>

definition cphase :: "qubit \<Rightarrow> qubit \<Rightarrow> real \<Rightarrow> call list" where
  "cphase c t theta =
     [Cu3 c 0 0 (theta / 2), Ccnot c t, Cu3 t 0 0 (- theta / 2), Ccnot c t, Cu3 t 0 0 (theta / 2)]"

definition qft_swaps :: "qubit list \<Rightarrow> call list" where
  "qft_swaps qubits =
     (let n = length qubits in map (\<lambda>i. Cswap (qubits ! i) (qubits ! (n - 1 - i))) [0..<n div 2])"

definition qft :: "qubit list \<Rightarrow> call list" where
  "qft qubits =
     (let n = length qubits in
      concat (map (\<lambda>i. Ch (qubits ! i) #
                       concat (map (\<lambda>j. cphase (qubits ! i) (qubits ! j) (pi / 2 ^ (j - i))) [i + 1..<n]))
                  [0..<n]) @
      qft_swaps qubits)"

definition inverseQft :: "qubit list \<Rightarrow> call list" where
  "inverseQft qubits =
     (let n = length qubits in
      qft_swaps qubits @
      concat (map (\<lambda>i. concat (map (\<lambda>j. cphase (qubits ! i) (qubits ! j) (- pi / 2 ^ (j - i))) (rev [i + 1..<n])) @
                       [Ch (qubits ! i)])
                  (rev [0..<n])))"

subsection \<open>Oracle algorithms and phase estimation (lines 154--203)\<close>

definition runBernsteinVazirani :: "qubit list \<Rightarrow> qubit \<Rightarrow> call list \<Rightarrow> (int option list \<Rightarrow> prog) \<Rightarrow> prog" where
  "runBernsteinVazirani qubits ancilla oracle k =
     calls (map Ch qubits @ [Cx ancilla, Ch ancilla] @ oracle @ map Ch qubits) (measure_all qubits k)"

definition runDeutschJozsa :: "qubit list \<Rightarrow> qubit \<Rightarrow> call list \<Rightarrow> (string \<Rightarrow> prog) \<Rightarrow> prog" where
  "runDeutschJozsa qubits ancilla oracle k =
     calls (map Ch qubits @ [Cx ancilla, Ch ancilla] @ oracle @ map Ch qubits)
       (measure_all qubits (\<lambda>results. k (if list_all (\<lambda>r. r = Some 0) results then ''constant'' else ''balanced'')))"

definition quantumPhaseEstimation :: "qubit list \<Rightarrow> qubit list \<Rightarrow> (qubit \<Rightarrow> qubit list \<Rightarrow> nat \<Rightarrow> call list)
    \<Rightarrow> (int option list \<Rightarrow> prog) \<Rightarrow> prog" where
  "quantumPhaseEstimation countingQubits targetQubits controlledU k =
     calls (map Ch countingQubits @
            concat (map (\<lambda>i. controlledU (countingQubits ! i) targetQubits (2 ^ (length countingQubits - 1 - i)))
                        [0..<length countingQubits]) @
            inverseQft countingQubits)
       (measure_all countingQubits k)"

section \<open>Lemmas\<close>

text \<open>The angle of a rotation call.\<close>

fun rot_angle :: "call \<Rightarrow> real option" where
  "rot_angle (Cry _ theta) = Some theta"
| "rot_angle (Crz _ theta) = Some theta"
| "rot_angle _ = None"

lemma calls_Nil: "calls [] k = k" and calls_Cons: "calls (c # cs) k = Call c (calls cs k)"
  and calls_append: "calls (xs @ ys) k = calls xs (calls ys k)"
  by (simp_all add: calls_def)

text \<open>Recording a sequence of calls that all meet their preconditions on the outer circuit.\<close>

lemma exec_calls:
  assumes "list_all (call_ok (mgr sc)) cs"
  shows "exec (calls cs k) None sc = exec k None (sc\<lparr>outer := (outer sc)\<lparr>ops := ops (outer sc) @ map call_instr cs\<rparr>\<rparr>)"
  using assms
proof (induction cs arbitrary: sc)
  case Nil
  then show ?case by (simp add: calls_Nil)
next
  case (Cons c cs)
  have "record_call (mgr sc) c (outer sc) = Inr ((outer sc)\<lparr>ops := ops (outer sc) @ [call_instr c]\<rparr>)"
    using Cons.prems by (simp add: record_call_ok)
  then show ?case
    using Cons.IH [of "sc\<lparr>outer := (outer sc)\<lparr>ops := ops (outer sc) @ [call_instr c]\<rparr>\<rparr>"] Cons.prems
    by (simp add: calls_Cons target_def set_target_def)
qed

lemma pi_sqrt2_bounds: "4 \<le> pi * sqrt 2" "pi * sqrt 2 < 8"
proof -
  have "sqrt 2 / 2 \<le> pi / 4" using sin_45 sin_x_le_x [of "pi / 4"] pi_gt_zero by simp
  then have "2 * sqrt 2 \<le> pi" by simp
  then have "2 * sqrt 2 * sqrt 2 \<le> pi * sqrt 2" by (rule mult_right_mono) simp
  moreover have "2 * sqrt 2 * sqrt (2::real) = 4" by simp
  ultimately show "4 \<le> pi * sqrt 2" by linarith
  have "pi * sqrt 2 < 4 * 2"
    using pi_less_4 sqrt2_less_2 pi_gt_zero by (intro mult_strict_mono) simp_all
  then show "pi * sqrt 2 < 8" by simp
qed

lemma grover_iterations_1: "grover_iterations (Suc 0) = Suc 0"
proof -
  have "\<lfloor>pi / 4 * sqrt 2\<rfloor> = 1" using pi_sqrt2_bounds by (simp add: floor_eq_iff)
  then show ?thesis by (simp add: grover_iterations_def)
qed

lemma filter_eq_single: "distinct xs \<Longrightarrow> x \<in> set xs \<Longrightarrow> filter (\<lambda>y. y = x) xs = [x]"
  by (induction xs) (auto simp: filter_empty_conv)

lemma nth_distinct_ne: "distinct xs \<Longrightarrow> i < length xs \<Longrightarrow> j < length xs \<Longrightarrow> i \<noteq> j \<Longrightarrow> xs ! i \<noteq> xs ! j"
  by (simp add: nth_eq_iff_index_eq)

lemma runGrover_one_qubit: "runGrover [q] oracle k = calls (Ch q # oracle @ [Ch q, Cx q]) (Raise UsageErrorUndefined)"
  by (simp add: runGrover_def grover_iterations_1 grover_diffusion_def calls_append calls_Cons calls_Nil)

text \<open>
  C23. \<open>runGrover\<close> on a single qubit performs one iteration (\<open>\<lfloor>\<pi>/4 \<cdot> \<surd>2\<rfloor> = 1\<close>),
  records H, the oracle, H and X, and then throws the UsageError of the handle
  \<open>undefined\<close> read at \<open>qubits[-1]\<close>, before any measurement.
\<close>

theorem runGrover_one_qubit_error:
  assumes "isAllocated q (mgr sc)" and "list_all (call_ok (mgr sc)) oracle"
  shows "exec (runGrover [q] oracle k) None sc =
           Some (Some UsageErrorUndefined, None,
                 sc\<lparr>outer := (outer sc)\<lparr>ops := ops (outer sc) @ map call_instr (Ch q # oracle @ [Ch q, Cx q])\<rparr>\<rparr>)"
proof -
  have "list_all (call_ok (mgr sc)) (Ch q # oracle @ [Ch q, Cx q])"
    using assms by (simp add: call_ok_def)
  then show ?thesis by (simp add: runGrover_one_qubit exec_calls)
qed

theorem runGrover_one_qubit_error_witness:
  "exec (runGrover [0] [] (\<lambda>_. Done)) None
     \<lparr>mgr = \<lparr>registry = {0}, nextSymbol = 1\<rparr>, ssim = Simulator [0] None None (\<lambda>_. 0),
      outer = new_circuit, observed = []\<rparr> =
   Some (Some UsageErrorUndefined, None,
     \<lparr>mgr = \<lparr>registry = {0}, nextSymbol = 1\<rparr>, ssim = Simulator [0] None None (\<lambda>_. 0),
      outer = \<lparr>ops = [Instr H (QOne 0) [] None None, Instr H (QOne 0) [] None None, Instr X (QOne 0) [] None None]\<rparr>,
      observed = []\<rparr>)"
  using runGrover_one_qubit_error [of 0 "\<lparr>mgr = \<lparr>registry = {0}, nextSymbol = 1\<rparr>,
      ssim = Simulator [0] None None (\<lambda>_. 0), outer = new_circuit, observed = []\<rparr>" "[]" "\<lambda>_. Done"]
  by (simp add: isAllocated_def new_circuit_def)

text \<open>
  C24. For three or more distinct qubits, the only calls of Grover's diffusion step on the
  first qubit are H, X, X, H: the CZ acts on the last two qubits only, so the step is not
  the inversion about the mean on the first qubit, and the optimizer removes all four.
\<close>

theorem grover_diffusion_first_qubit:
  assumes "distinct qubits" and "3 \<le> length qubits" and "grover_diffusion qubits = Some d"
  shows "filter (\<lambda>c. hd qubits \<in> set (call_qubits c)) d = [Ch (hd qubits), Cx (hd qubits), Cx (hd qubits), Ch (hd qubits)]"
proof -
  let ?n = "length qubits" and ?q = "hd qubits"
  have q: "?q = qubits ! 0" "?q \<in> set qubits" using assms(2) by (cases qubits; simp)+
  have f: "filter (\<lambda>y. ?q \<in> set [y]) qubits = [?q]"
    using filter_eq_single [OF assms(1) q(2)] by (simp add: eq_commute)
  have "qubits ! (?n - 2) \<noteq> ?q" "qubits ! (?n - 1) \<noteq> ?q"
    using nth_distinct_ne [OF assms(1), of "?n - 2" 0] nth_distinct_ne [OF assms(1), of "?n - 1" 0]
      assms(2) q(1) by (auto simp del: length_greater_0_conv)
  then show ?thesis
    using assms(2,3) f by (auto simp: grover_diffusion_def Let_def filter_map comp_def)
qed

theorem grover_diffusion_first_qubit_witness:
  "grover_diffusion [0, 1, 2] =
     Some [Ch 0, Ch 1, Ch 2, Cx 0, Cx 1, Cx 2, Ccz 1 2, Cx 0, Cx 1, Cx 2, Ch 0, Ch 1, Ch 2] \<and>
   filter (\<lambda>c. hd [0, 1, 2] \<in> set (call_qubits c))
     [Ch 0, Ch 1, Ch 2, Cx 0, Cx 1, Cx 2, Ccz 1 2, Cx 0, Cx 1, Cx 2, Ch 0, Ch 1, Ch 2] =
   [Ch (hd [0, 1, 2]), Cx (hd [0, 1, 2]), Cx (hd [0, 1, 2]), Ch (hd [0, 1, 2])]"
proof -
  have d: "grover_diffusion [0, 1, 2] =
     Some [Ch 0, Ch 1, Ch 2, Cx 0, Cx 1, Cx 2, Ccz 1 2, Cx 0, Cx 1, Cx 2, Ch 0, Ch 1, Ch 2]"
    by (simp add: grover_diffusion_def)
  show ?thesis using d grover_diffusion_first_qubit [OF _ _ d] by simp
qed

lemma cphase_ok:
  "isAllocated c m \<Longrightarrow> isAllocated t m \<Longrightarrow> c \<noteq> t \<Longrightarrow> list_all (call_ok m) (cphase c t theta)"
  by (simp add: cphase_def call_ok_def)

lemma qft_swaps_ok:
  assumes "distinct qubits" and "\<forall>q\<in>set qubits. isAllocated q m"
  shows "list_all (call_ok m) (qft_swaps qubits)"
proof -
  have "\<And>i. i < length qubits div 2 \<Longrightarrow>
      qubits ! i \<noteq> qubits ! (length qubits - 1 - i) \<and> isAllocated (qubits ! i) m \<and>
      isAllocated (qubits ! (length qubits - 1 - i)) m"
    using assms nth_distinct_ne [OF assms(1)] by auto
  then show ?thesis by (auto simp: qft_swaps_def Let_def list_all_iff call_ok_def)
qed

lemma qft_ok:
  assumes "distinct qubits" and "\<forall>q\<in>set qubits. isAllocated q m"
  shows "list_all (call_ok m) (qft qubits)" and "list_all (call_ok m) (inverseQft qubits)"
proof -
  have h: "\<And>i. i < length qubits \<Longrightarrow> call_ok m (Ch (qubits ! i))"
    using assms(2) by (simp add: call_ok_def)
  have b: "\<And>i j theta x. i < j \<Longrightarrow> j < length qubits \<Longrightarrow> x \<in> set (cphase (qubits ! i) (qubits ! j) theta)
      \<Longrightarrow> call_ok m x"
  proof -
    fix i j theta x
    assume "i < j" "j < length qubits" "x \<in> set (cphase (qubits ! i) (qubits ! j) theta)"
    moreover have "list_all (call_ok m) (cphase (qubits ! i) (qubits ! j) theta)"
      using \<open>i < j\<close> \<open>j < length qubits\<close> assms(2) nth_distinct_ne [OF assms(1), of i j] by (intro cphase_ok) auto
    ultimately show "call_ok m x" by (simp add: list_all_iff)
  qed
  have sw: "\<And>x. x \<in> set (qft_swaps qubits) \<Longrightarrow> call_ok m x"
    using qft_swaps_ok [OF assms] by (simp add: list_all_iff)
  show "list_all (call_ok m) (qft qubits)"
    using h sw by (auto simp: qft_def Let_def list_all_iff Suc_le_eq intro: b)
  show "list_all (call_ok m) (inverseQft qubits)"
    using h sw by (auto simp: inverseQft_def Let_def list_all_iff Suc_le_eq intro: b)
qed

text \<open>
  C25. On distinct allocated handles, \<open>qft\<close> followed by \<open>inverseQft\<close> records without any
  error: every CNOT and SWAP they issue names two different handles. Each call appends its
  node to the outer circuit, in order.
\<close>

theorem qft_inverseQft_record:
  assumes "distinct qubits" and "\<forall>q\<in>set qubits. isAllocated q (mgr sc)"
  shows "exec (calls (qft qubits @ inverseQft qubits) k) None sc =
           exec k None (sc\<lparr>outer := (outer sc)\<lparr>ops := ops (outer sc) @ map call_instr (qft qubits @ inverseQft qubits)\<rparr>\<rparr>)"
  using qft_ok [OF assms] by (simp add: exec_calls)

theorem qft_inverseQft_record_witness:
  "exec (calls (qft [0, 1] @ inverseQft [0, 1]) Done) None
     \<lparr>mgr = \<lparr>registry = {0, 1}, nextSymbol = 2\<rparr>, ssim = Simulator [0, 1] None None (\<lambda>_. 0),
      outer = new_circuit, observed = []\<rparr> =
   Some (None, None,
     \<lparr>mgr = \<lparr>registry = {0, 1}, nextSymbol = 2\<rparr>, ssim = Simulator [0, 1] None None (\<lambda>_. 0),
      outer = \<lparr>ops = map call_instr (qft [0, 1] @ inverseQft [0, 1])\<rparr>, observed = []\<rparr>)"
  using qft_inverseQft_record [of "[0, 1]" "\<lparr>mgr = \<lparr>registry = {0, 1}, nextSymbol = 2\<rparr>,
      ssim = Simulator [0, 1] None None (\<lambda>_. 0), outer = new_circuit, observed = []\<rparr>" Done]
  by (simp add: isAllocated_def new_circuit_def)

lemma pairs_take_drop:
  "b + 2 * n \<le> length xs \<Longrightarrow>
   concat (map (\<lambda>i. [xs ! (b + 2 * i), xs ! (b + 2 * i + 1)]) [0..<n]) = take (2 * n) (drop b xs)"
proof (induction n)
  case 0
  then show ?case by simp
next
  case (Suc n)
  have "take (2 * Suc n) (drop b xs) = take (2 * n) (drop b xs) @ [xs ! (b + 2 * n), xs ! (b + 2 * n + 1)]"
    using Suc.prems by (simp add: take_Suc_conv_app_nth take_add [of "2 * n" 2] take_drop)
       (simp add: take_Suc_conv_app_nth numeral_2_eq_2 add_ac)
  then show ?case using Suc by simp
qed

lemma map_filter_rot_pairs:
  "List.map_filter rot_angle (concat (map (\<lambda>i. [Cry (f i) (g i), Crz (f i) (h i)]) xs)) =
   concat (map (\<lambda>i. [g i, h i]) xs)"
  by (induction xs) (simp_all add: map_filter_simps)

lemma map_filter_vqe_layer:
  assumes "b + 2 * length qubits \<le> length angles"
  shows "List.map_filter rot_angle (vqe_layer qubits angles b) = take (2 * length qubits) (drop b angles)"
proof -
  have "List.map_filter rot_angle (map (\<lambda>i. Ccnot (qubits ! i) (qubits ! (i + 1))) xs) = []" for xs
    by (induction xs) (simp_all add: map_filter_simps)
  then show ?thesis
    using pairs_take_drop [OF assms] by (simp add: vqe_layer_def map_filter_rot_pairs)
qed

text \<open>
  C26. When \<open>vqeAnsatz\<close> reads no angle past the end of \<open>params\<close>, the rotation angles it
  records are exactly the first \<open>4n\<close> entries of \<open>params\<close>, each once and in order (RY then
  RZ per qubit, layer by layer), and it records \<open>2(2n + (n - 1))\<close> calls.
\<close>

theorem vqeAnsatz_angles:
  assumes "vqeAnsatz qubits angles = Some cs"
  shows "List.map_filter rot_angle cs = take (4 * length qubits) angles \<and>
         length cs = 2 * (2 * length qubits + (length qubits - 1))"
proof -
  let ?n = "length qubits"
  have len: "4 * ?n \<le> length angles" and cs: "cs = vqe_layer qubits angles 0 @ vqe_layer qubits angles (2 * ?n)"
    using assms by (auto simp: vqeAnsatz_def split: if_splits)
  have "take (2 * ?n) angles @ take (2 * ?n) (drop (2 * ?n) angles) = take (4 * ?n) angles"
    by (simp add: take_add [symmetric])
  then have "List.map_filter rot_angle cs = take (4 * ?n) angles"
    using len by (simp add: cs map_filter_vqe_layer)
  moreover have "length cs = 2 * (2 * ?n + (?n - 1))"
    by (simp add: cs vqe_layer_def length_concat comp_def sum_list_triv)
  ultimately show ?thesis by simp
qed

theorem vqeAnsatz_angles_witness:
  "vqeAnsatz [0, 1] [1, 2, 3, 4, 5, 6, 7, 8] =
     Some [Cry 0 1, Crz 0 2, Cry 1 3, Crz 1 4, Ccnot 0 1, Cry 0 5, Crz 0 6, Cry 1 7, Crz 1 8, Ccnot 0 1] \<and>
   List.map_filter rot_angle
     [Cry 0 1, Crz 0 2, Cry 1 3, Crz 1 4, Ccnot 0 1, Cry 0 5, Crz 0 6, Cry 1 7, Crz 1 8, Ccnot 0 1] =
     take (4 * length [0::nat, 1]) [1, 2, 3, 4, 5, 6, 7, 8] \<and>
   length [Cry 0 1, Crz 0 2, Cry 1 3, Crz 1 4, Ccnot 0 1, Cry 0 5, Crz 0 6, Cry 1 7, Crz 1 8, Ccnot 0 1] =
     2 * (2 * length [0::nat, 1] + (length [0::nat, 1] - 1))"
proof -
  have v: "vqeAnsatz [0, 1] [1, 2, 3, 4, 5, 6, 7, 8] =
     Some [Cry 0 1, Crz 0 2, Cry 1 3, Crz 1 4, Ccnot 0 1, Cry 0 5, Crz 0 6, Cry 1 7, Crz 1 8, Ccnot 0 1]"
    by (simp add: vqeAnsatz_def vqe_layer_def upt_rec)
  show ?thesis using v vqeAnsatz_angles [OF v] by simp
qed

end
