(* ===== verification/Call_Semantics.thy ===== *)
theory Call_Semantics
  imports Algorithms Semantics
begin

text \<open>
  The meaning of recorded calls as state transformations. A call on handles acts on the
  amplitude function through the catalog matrix of its gate at the bit positions the
  simulator assigns to the handles (\<open>pos\<close>, the \<open>qubitMap\<close> of the scope's simulator):
  \<open>gate1\<close> for one qubit and \<open>gateN\<close> for several, the actions that \<open>applyGate\<close>,
  \<open>apply2QubitGate\<close> and \<open>apply3QubitGate\<close> implement (C1, C12, C13). RESET is a
  measurement, not a linear map, and has no meaning here (\<open>None\<close>).
\<close>

fun call_sem :: "(qubit \<Rightarrow> nat) \<Rightarrow> call \<Rightarrow> (qstate \<Rightarrow> qstate) option" where
  "call_sem pos (Ch q) = Some (gate1 H_mat (2 ^ pos q))"
| "call_sem pos (Cx q) = Some (gate1 X_mat (2 ^ pos q))"
| "call_sem pos (Cy q) = Some (gate1 Y_mat (2 ^ pos q))"
| "call_sem pos (Cz q) = Some (gate1 Z_mat (2 ^ pos q))"
| "call_sem pos (Cs q) = Some (gate1 S_mat (2 ^ pos q))"
| "call_sem pos (Ct q) = Some (gate1 T_mat (2 ^ pos q))"
| "call_sem pos (Crx q theta) = Some (gate1 (RX_mat theta) (2 ^ pos q))"
| "call_sem pos (Cry q theta) = Some (gate1 (RY_mat theta) (2 ^ pos q))"
| "call_sem pos (Crz q theta) = Some (gate1 (RZ_mat theta) (2 ^ pos q))"
| "call_sem pos (Cu3 q theta phi lam) = Some (gate1 (U3_mat theta phi lam) (2 ^ pos q))"
| "call_sem pos (Ccnot a b) = Some (gateN CNOT_mat [pos a, pos b])"
| "call_sem pos (Ccz a b) = Some (gateN CZ_mat [pos a, pos b])"
| "call_sem pos (Crzz a b theta) = Some (gateN (RZZ_mat theta) [pos a, pos b])"
| "call_sem pos (Cswap a b) = Some (gateN SWAP_mat [pos a, pos b])"
| "call_sem pos (Cccx a b c) = Some (gateN CCX_mat [pos a, pos b, pos c])"
| "call_sem pos (Creset q) = None"

primrec calls_sem :: "(qubit \<Rightarrow> nat) \<Rightarrow> call list \<Rightarrow> qstate \<Rightarrow> qstate option" where
  "calls_sem pos [] \<psi> = Some \<psi>"
| "calls_sem pos (c # cs) \<psi> = (case call_sem pos c of None \<Rightarrow> None | Some f \<Rightarrow> calls_sem pos cs (f \<psi>))"

text \<open>Helpers of the proofs: the index permutations of the CNOT and SWAP matrices, the
  bit swap of SWAP on a basis index and its composition along a list, and the QFT as a
  list of units (an H on qubit \<open>i\<close>, or the controlled phase of \<open>i\<close> and \<open>j\<close>).\<close>

definition cnot_perm :: "nat \<Rightarrow> nat" where
  "cnot_perm r = (if r = 2 then 3 else if r = 3 then 2 else r)"

definition swap_perm :: "nat \<Rightarrow> nat" where
  "swap_perm r = (if r = 1 then 2 else if r = 2 then 1 else r)"

definition sw :: "nat \<Rightarrow> nat \<Rightarrow> int \<Rightarrow> int" where
  "sw a b j = (if bit j a = bit j b then j else j XOR 2 ^ a XOR 2 ^ b)"

definition swf :: "(nat \<Rightarrow> nat) \<Rightarrow> (nat \<Rightarrow> nat) \<Rightarrow> nat list \<Rightarrow> int \<Rightarrow> int" where
  "swf a b idx j = foldr (\<lambda>i. sw (a i) (b i)) idx j"

definition qft_units :: "nat \<Rightarrow> (nat \<times> nat option) list" where
  "qft_units n = concat (map (\<lambda>i. (i, None) # map (\<lambda>j. (i, Some j)) [i + 1..<n]) [0..<n])"

fun unit_calls :: "real \<Rightarrow> qubit list \<Rightarrow> nat \<times> nat option \<Rightarrow> call list" where
  "unit_calls sg qubits (i, None) = [Ch (qubits ! i)]"
| "unit_calls sg qubits (i, Some j) = cphase (qubits ! i) (qubits ! j) (sg * (pi / 2 ^ (j - i)))"

section \<open>Lemmas\<close>

lemma calls_sem_append:
  "calls_sem pos (xs @ ys) \<psi> = Option.bind (calls_sem pos xs \<psi>) (calls_sem pos ys)"
  by (induction xs arbitrary: \<psi>) (simp_all split: option.splits)

lemma bit_exp_and: "(j AND 2 ^ k \<noteq> (0::int)) \<longleftrightarrow> bit j k"
  by (simp add: and_exp_nonzero_iff)

lemma H_entries:
  "mat_entry H_mat 2 0 0 = of_real INV_SQRT2" "mat_entry H_mat 2 0 (Suc 0) = of_real INV_SQRT2"
  "mat_entry H_mat 2 (Suc 0) 0 = of_real INV_SQRT2" "mat_entry H_mat 2 (Suc 0) (Suc 0) = - of_real INV_SQRT2"
  by (simp_all add: mat_entry_def H_mat_def complex_eq_iff)

lemma INV_SQRT2_sq: "complex_of_real INV_SQRT2 * (complex_of_real INV_SQRT2 * x) = x / 2"
proof -
  have "complex_of_real INV_SQRT2 * complex_of_real INV_SQRT2 = 1 / 2"
    by (simp add: INV_SQRT2_def flip: of_real_mult)
  then show ?thesis by (simp flip: mult.assoc)
qed

lemma H_involution: "gate1 H_mat (2 ^ k) (gate1 H_mat (2 ^ k) \<psi>) = \<psi>"
proof
  fix j :: int
  show "gate1 H_mat (2 ^ k) (gate1 H_mat (2 ^ k) \<psi>) j = \<psi> j"
  proof (cases "bit j k")
    case True
    have "j AND NOT (2 ^ k) OR 2 ^ k = j" "bit (j AND NOT (2 ^ k)) k = False"
      using True by (auto intro!: bit_eqI simp: bit_simps)
    then show ?thesis using True
      by (simp add: gate1_def bit_exp_and H_entries ring_distribs INV_SQRT2_sq)
  next
    case False
    have "(j OR 2 ^ k) AND NOT (2 ^ k) = j" "bit (j OR 2 ^ k) k"
      using False by (auto intro!: bit_eqI simp: bit_simps)
    then show ?thesis using False
      by (simp add: gate1_def bit_exp_and H_entries ring_distribs INV_SQRT2_sq)
  qed
qed

lemma U3_phase: "gate1 (U3_mat 0 0 lam) (2 ^ k) \<psi> j = (if bit j k then cis lam * \<psi> j else \<psi> j)"
  by (simp add: gate1_def bit_exp_and U3_mat_def mat_entry_def cis.code complex_eq_iff)

lemma gateN_perm:
  assumes "\<And>r c. r < 2 ^ length ks \<Longrightarrow> c < 2 ^ length ks \<Longrightarrow>
             mat_entry m (2 ^ length ks) r c = (if c = \<pi> r then 1 else 0)"
    and "\<And>r. r < 2 ^ length ks \<Longrightarrow> \<pi> r < 2 ^ length ks"
  shows "gateN m ks \<psi> j = \<psi> (set_field ks j (\<pi> (col_of ks j)))"
proof -
  have "gateN m ks \<psi> j = (\<Sum>c<2 ^ length ks. if c = \<pi> (col_of ks j) then \<psi> (set_field ks j c) else 0)"
    unfolding gateN_def using assms(1) [OF col_of_less] by (intro sum.cong) simp_all
  also have "\<dots> = \<psi> (set_field ks j (\<pi> (col_of ks j)))"
    using assms(2) [OF col_of_less] by (simp add: sum.delta)
  finally show ?thesis .
qed

lemma less4_cases: "(r::nat) < 4 \<Longrightarrow> r = 0 \<or> r = 1 \<or> r = 2 \<or> r = 3"
  by auto

lemma CNOT_entries:
  assumes "r < 4" and "c < 4"
  shows "mat_entry CNOT_mat 4 r c = (if c = cnot_perm r then 1 else 0)"
  using less4_cases [OF assms(1)] less4_cases [OF assms(2)]
  by (elim disjE) (simp_all add: mat_entry_def CNOT_mat_def cnot_perm_def Complex_eq)

lemma SWAP_entries:
  assumes "r < 4" and "c < 4"
  shows "mat_entry SWAP_mat 4 r c = (if c = swap_perm r then 1 else 0)"
  using less4_cases [OF assms(1)] less4_cases [OF assms(2)]
  by (elim disjE) (simp_all add: mat_entry_def SWAP_mat_def swap_perm_def Complex_eq)

lemma bit_set_field_2:
  assumes "a \<noteq> b"
  shows "bit (set_field [a, b] j r) p = (if p = a then bit r 1 else if p = b then bit r 0 else bit j p)"
proof -
  have d: "distinct [a, b]" using assms by simp
  show ?thesis
    using bit_set_field_in [OF d, of 0 j r] bit_set_field_in [OF d, of 1 j r] bit_set_field_out [of p "[a, b]" j r]
    by auto
qed

lemma CNOT_sem:
  assumes "a \<noteq> b"
  shows "gateN CNOT_mat [a, b] \<psi> j = \<psi> (if bit j a then j XOR 2 ^ b else j)"
proof -
  have "gateN CNOT_mat [a, b] \<psi> j = \<psi> (set_field [a, b] j (cnot_perm (col_of [a, b] j)))"
    by (rule gateN_perm) (simp_all add: CNOT_entries cnot_perm_def)
  also have "set_field [a, b] j (cnot_perm (col_of [a, b] j)) = (if bit j a then j XOR 2 ^ b else j)"
    using assms by (intro bit_eqI) (auto simp: bit_set_field_2 [OF assms] cnot_perm_def bit_simps)
  finally show ?thesis .
qed

lemma SWAP_sem:
  assumes "a \<noteq> b"
  shows "gateN SWAP_mat [a, b] \<psi> j = \<psi> (if bit j a = bit j b then j else j XOR 2 ^ a XOR 2 ^ b)"
proof -
  have "gateN SWAP_mat [a, b] \<psi> j = \<psi> (set_field [a, b] j (swap_perm (col_of [a, b] j)))"
    by (rule gateN_perm) (simp_all add: SWAP_entries swap_perm_def)
  also have "set_field [a, b] j (swap_perm (col_of [a, b] j)) =
      (if bit j a = bit j b then j else j XOR 2 ^ a XOR 2 ^ b)"
  proof (rule bit_eqI)
    fix p
    show "bit (set_field [a, b] j (swap_perm (col_of [a, b] j))) p =
        bit (if bit j a = bit j b then j else j XOR 2 ^ a XOR 2 ^ b) p"
      using assms by (cases "bit j a"; cases "bit j b")
        (simp_all add: bit_set_field_2 [OF assms] swap_perm_def bit_xor_iff bit_exp_iff bit_0)
  qed
  finally show ?thesis .
qed

lemma xor_exp_twice: "((j::int) XOR 2 ^ k) XOR 2 ^ k = j"
  by (rule bit_eqI) (auto simp: bit_xor_iff)

lemma bit_xor_exp: "bit ((j::int) XOR 2 ^ k) p \<longleftrightarrow> bit j p \<noteq> (p = k)"
  by (auto simp: bit_xor_iff bit_exp_iff)

lemma cis_half: "cis (theta / 2) * cis (theta / 2) = cis theta" "cis (- (theta / 2)) * cis (theta / 2) = 1"
  "cis (theta / 2) * cis (- (theta / 2)) = 1"
  by (simp_all add: cis_mult)

lemma cphase_sem:
  assumes "pos c \<noteq> pos t"
  shows "calls_sem pos (cphase c t theta) \<psi> =
           Some (\<lambda>j. (if bit j (pos c) \<and> bit j (pos t) then cis theta else 1) * \<psi> j)"
proof -
  have "(\<lambda>j. gate1 (U3_mat 0 0 (theta / 2)) (2 ^ pos t) (gateN CNOT_mat [pos c, pos t]
          (gate1 (U3_mat 0 0 (- (theta / 2))) (2 ^ pos t) (gateN CNOT_mat [pos c, pos t]
            (gate1 (U3_mat 0 0 (theta / 2)) (2 ^ pos c) \<psi>)))) j) =
        (\<lambda>j. (if bit j (pos c) \<and> bit j (pos t) then cis theta else 1) * \<psi> j)"
  proof
    fix j
    show "gate1 (U3_mat 0 0 (theta / 2)) (2 ^ pos t) (gateN CNOT_mat [pos c, pos t]
          (gate1 (U3_mat 0 0 (- (theta / 2))) (2 ^ pos t) (gateN CNOT_mat [pos c, pos t]
            (gate1 (U3_mat 0 0 (theta / 2)) (2 ^ pos c) \<psi>)))) j =
        (if bit j (pos c) \<and> bit j (pos t) then cis theta else 1) * \<psi> j"
      using assms
      by (cases "bit j (pos c)"; cases "bit j (pos t)")
         (simp_all add: U3_phase CNOT_sem bit_xor_exp xor_exp_twice mult.assoc [symmetric] cis_half)
  qed
  then show ?thesis using assms by (simp add: cphase_def)
qed

lemma bit_sw: "bit (sw a b j) p \<longleftrightarrow> bit j (if p = a then b else if p = b then a else p)"
  by (auto simp: sw_def bit_xor_iff bit_exp_iff)

lemma sw_twice: "sw a b (sw a b j) = j"
  by (rule bit_eqI) (auto simp: bit_sw)

lemma sw_comm:
  assumes "a \<noteq> c" "a \<noteq> d" "b \<noteq> c" "b \<noteq> d"
  shows "sw a b (sw c d j) = sw c d (sw a b j)"
  using assms by (intro bit_eqI) (auto simp: bit_sw)

lemma sw_swf_comm:
  assumes "\<forall>i\<in>set idx. a k \<noteq> a i \<and> a k \<noteq> b i \<and> b k \<noteq> a i \<and> b k \<noteq> b i"
  shows "sw (a k) (b k) (swf a b idx j) = swf a b idx (sw (a k) (b k) j)"
  using assms by (induction idx arbitrary: j) (simp_all add: swf_def sw_comm)

lemma swf_twice:
  assumes "\<forall>i\<in>set idx. \<forall>i'\<in>set idx. i \<noteq> i' \<longrightarrow> a i \<noteq> a i' \<and> a i \<noteq> b i' \<and> b i \<noteq> a i' \<and> b i \<noteq> b i'"
    and "distinct idx"
  shows "swf a b idx (swf a b idx j) = j"
  using assms
proof (induction idx arbitrary: j)
  case Nil
  then show ?case by (simp add: swf_def)
next
  case (Cons k idx)
  have c: "\<forall>i\<in>set idx. a k \<noteq> a i \<and> a k \<noteq> b i \<and> b k \<noteq> a i \<and> b k \<noteq> b i"
    using Cons.prems by auto
  have "swf a b (k # idx) (swf a b (k # idx) j) = sw (a k) (b k) (swf a b idx (sw (a k) (b k) (swf a b idx j)))"
    by (simp add: swf_def)
  also have "\<dots> = sw (a k) (b k) (sw (a k) (b k) (swf a b idx (swf a b idx j)))"
    using sw_swf_comm [OF c] by simp
  also have "\<dots> = j" using Cons by (simp add: sw_twice)
  finally show ?case .
qed

lemma calls_sem_swaps:
  assumes "\<forall>i\<in>set idx. pos (f i) \<noteq> pos (g i)"
  shows "calls_sem pos (map (\<lambda>i. Cswap (f i) (g i)) idx) \<psi> = Some (\<lambda>j. \<psi> (swf (pos \<circ> f) (pos \<circ> g) idx j))"
  using assms
proof (induction idx arbitrary: \<psi>)
  case Nil
  then show ?case by (simp add: swf_def)
next
  case (Cons k idx)
  then show ?case by (simp add: swf_def SWAP_sem sw_def)
qed

lemma concat_concat_map: "concat (concat xss) = concat (map concat xss)"
  by (induction xss) simp_all

lemma qft_units_eq:
  "qft qubits = concat (map (unit_calls 1 qubits) (qft_units (length qubits))) @ qft_swaps qubits"
  by (simp add: qft_def qft_units_def map_concat comp_def Let_def concat_concat_map)

lemma rev_unit_row:
  "rev ((i, None) # map (\<lambda>j. (i, Some j)) xs) = map (\<lambda>j. (i, Some j)) (rev xs) @ [(i, None)]"
  by (simp add: rev_map)

lemma inverseQft_units_eq:
  "inverseQft qubits = qft_swaps qubits @ concat (map (unit_calls (- 1) qubits) (rev (qft_units (length qubits))))"
  by (simp add: inverseQft_def qft_units_def rev_concat rev_map [symmetric] rev_unit_row map_concat comp_def Let_def concat_concat_map)

lemma calls_sem_insert_id:
  assumes "\<And>\<phi>. calls_sem pos mid \<phi> = Some \<phi>"
  shows "calls_sem pos (xs @ mid @ ys) \<psi> = calls_sem pos (xs @ ys) \<psi>"
  using assms by (cases "calls_sem pos xs \<psi>") (simp_all add: calls_sem_append)

lemma stack_cancel:
  assumes "\<forall>u\<in>set us. \<forall>\<psi>. \<exists>\<psi>'. calls_sem pos (e u) \<psi> = Some \<psi>' \<and> calls_sem pos (e' u) \<psi>' = Some \<psi>"
  shows "calls_sem pos (concat (map e us) @ concat (map e' (rev us))) \<psi> = Some \<psi>"
  using assms
proof (induction us arbitrary: \<psi>)
  case Nil
  then show ?case by simp
next
  case (Cons u us)
  have "\<exists>\<psi>'. calls_sem pos (e u) \<psi> = Some \<psi>' \<and> calls_sem pos (e' u) \<psi>' = Some \<psi>"
    using Cons.prems by simp
  then obtain \<psi>' where a: "calls_sem pos (e u) \<psi> = Some \<psi>'" and b: "calls_sem pos (e' u) \<psi>' = Some \<psi>"
    by blast
  have m: "calls_sem pos (concat (map e us) @ concat (map e' (rev us))) \<psi>' = Some \<psi>'"
    using Cons by simp
  then show ?case using a b
    by (cases "calls_sem pos (concat (map e us)) \<psi>'") (simp_all add: calls_sem_append)
qed

lemma pos_nth_inj:
  assumes "distinct qubits" and "inj_on pos (set qubits)" and "x < length qubits" and "y < length qubits"
    and "pos (qubits ! x) = pos (qubits ! y)"
  shows "x = y"
  using assms by (metis inj_on_def nth_eq_iff_index_eq nth_mem)

lemma qft_units_set:
  "u \<in> set (qft_units n) \<longleftrightarrow> (\<exists>i<n. u = (i, None)) \<or> (\<exists>i j. i < j \<and> j < n \<and> u = (i, Some j))"
  by (auto simp: qft_units_def Suc_le_eq)

lemma phase_cancel:
  "(\<lambda>x. (if P x then cis (- t) else 1) * ((if P x then cis t else 1) * \<psi> x)) = \<psi>"
proof
  fix x
  have "cis (- t) * (cis t * \<psi> x) = \<psi> x" by (simp add: mult.assoc [symmetric] cis_mult)
  then show "(if P x then cis (- t) else 1) * ((if P x then cis t else 1) * \<psi> x) = \<psi> x" by simp
qed

lemma unit_cancel_cphase:
  assumes "pos (qubits ! i) \<noteq> pos (qubits ! j)"
  shows "\<exists>\<psi>'. calls_sem pos (unit_calls 1 qubits (i, Some j)) \<psi> = Some \<psi>' \<and>
           calls_sem pos (unit_calls (- 1) qubits (i, Some j)) \<psi>' = Some \<psi>"
proof -
  let ?P = "\<lambda>x. bit x (pos (qubits ! i)) \<and> bit x (pos (qubits ! j))" and ?t = "pi / 2 ^ (j - i)"
  have a: "calls_sem pos (unit_calls 1 qubits (i, Some j)) \<psi> = Some (\<lambda>x. (if ?P x then cis ?t else 1) * \<psi> x)"
    using assms by (simp add: cphase_sem)
  have b: "calls_sem pos (unit_calls (- 1) qubits (i, Some j)) (\<lambda>x. (if ?P x then cis ?t else 1) * \<psi> x) = Some \<psi>"
    using assms by (simp add: cphase_sem phase_cancel)
  from a b show ?thesis by (intro exI conjI)
qed

lemma unit_cancel:
  assumes "distinct qubits" and "inj_on pos (set qubits)" and "u \<in> set (qft_units (length qubits))"
  shows "\<exists>\<psi>'. calls_sem pos (unit_calls 1 qubits u) \<psi> = Some \<psi>' \<and> calls_sem pos (unit_calls (- 1) qubits u) \<psi>' = Some \<psi>"
  using qft_units_set [THEN iffD1, OF assms(3)]
proof (elim disjE exE conjE)
  fix i assume "u = (i, None)"
  then show ?thesis by (simp add: H_involution)
next
  fix i j assume c: "i < j" "j < length qubits" "u = (i, Some j)"
  have "pos (qubits ! i) \<noteq> pos (qubits ! j)"
  proof
    assume "pos (qubits ! i) = pos (qubits ! j)"
    then have "i = j" using pos_nth_inj [OF assms(1,2)] c(1,2) by simp
    then show False using c(1) by simp
  qed
  then show ?thesis using c(3) unit_cancel_cphase by simp
qed

lemma qft_swaps_twice:
  assumes "distinct qubits" and "inj_on pos (set qubits)"
  shows "calls_sem pos (qft_swaps qubits @ qft_swaps qubits) \<phi> = Some \<phi>"
proof -
  let ?n = "length qubits"
  let ?f = "\<lambda>i. qubits ! i" and ?g = "\<lambda>i. qubits ! (?n - 1 - i)"
  have inj: "\<And>x y. x < ?n \<Longrightarrow> y < ?n \<Longrightarrow> pos (qubits ! x) = pos (qubits ! y) \<Longrightarrow> x = y"
    using pos_nth_inj [OF assms] by blast
  have ix: "\<And>i. i < ?n div 2 \<Longrightarrow> i < ?n \<and> ?n - 1 - i < ?n \<and> i \<noteq> ?n - 1 - i"
    by arith
  have ix2: "\<And>i i'. i < ?n div 2 \<Longrightarrow> i' < ?n div 2 \<Longrightarrow> i \<noteq> i' \<Longrightarrow>
      i \<noteq> ?n - 1 - i' \<and> ?n - 1 - i \<noteq> i' \<and> ?n - 1 - i \<noteq> ?n - 1 - i'"
    by arith
  have ne: "\<forall>i\<in>set [0..<?n div 2]. pos (?f i) \<noteq> pos (?g i)"
    using inj ix by (metis atLeastLessThan_iff set_upt)
  have dj: "\<forall>i\<in>set [0..<?n div 2]. \<forall>i'\<in>set [0..<?n div 2]. i \<noteq> i' \<longrightarrow>
      (pos \<circ> ?f) i \<noteq> (pos \<circ> ?f) i' \<and> (pos \<circ> ?f) i \<noteq> (pos \<circ> ?g) i' \<and>
      (pos \<circ> ?g) i \<noteq> (pos \<circ> ?f) i' \<and> (pos \<circ> ?g) i \<noteq> (pos \<circ> ?g) i'"
  proof (intro ballI impI)
    fix i i' assume "i \<in> set [0..<?n div 2]" "i' \<in> set [0..<?n div 2]" "i \<noteq> i'"
    then have "i < ?n div 2" "i' < ?n div 2" "i \<noteq> i'" by auto
    then show "(pos \<circ> ?f) i \<noteq> (pos \<circ> ?f) i' \<and> (pos \<circ> ?f) i \<noteq> (pos \<circ> ?g) i' \<and>
      (pos \<circ> ?g) i \<noteq> (pos \<circ> ?f) i' \<and> (pos \<circ> ?g) i \<noteq> (pos \<circ> ?g) i'"
      using inj ix [of i] ix [of i'] ix2 [of i i'] by (metis comp_apply)
  qed
  have s: "qft_swaps qubits = map (\<lambda>i. Cswap (?f i) (?g i)) [0..<?n div 2]"
    by (simp add: qft_swaps_def Let_def)
  show ?thesis
    using swf_twice [OF dj] calls_sem_swaps [where pos = pos and f = ?f and g = ?g, OF ne]
    by (simp add: s calls_sem_append comp_def)
qed

text \<open>
  C28. Round trip (the spec's testable property for the QFT): on distinct handles placed at
  distinct bit positions, the calls \<open>qft\<close> records followed by those \<open>inverseQft\<close> records
  compose to the identity on every state, for any number of qubits.
\<close>

theorem qft_roundtrip:
  assumes "distinct qubits" and "inj_on pos (set qubits)"
  shows "calls_sem pos (qft qubits @ inverseQft qubits) \<psi> = Some \<psi>"
proof -
  let ?us = "qft_units (length qubits)"
  have "calls_sem pos (qft qubits @ inverseQft qubits) \<psi> =
      calls_sem pos (concat (map (unit_calls 1 qubits) ?us) @ (qft_swaps qubits @ qft_swaps qubits) @
                     concat (map (unit_calls (- 1) qubits) (rev ?us))) \<psi>"
    by (simp add: qft_units_eq inverseQft_units_eq)
  also have "\<dots> = calls_sem pos (concat (map (unit_calls 1 qubits) ?us) @
                     concat (map (unit_calls (- 1) qubits) (rev ?us))) \<psi>"
    using qft_swaps_twice [OF assms] by (rule calls_sem_insert_id)
  also have "\<dots> = Some \<psi>"
    using unit_cancel [OF assms] by (intro stack_cancel) blast
  finally show ?thesis .
qed

theorem qft_roundtrip_witness:
  "calls_sem id (qft [0, 1, 2] @ inverseQft [0, 1, 2]) (\<lambda>j. if j = 5 then 1 else 0) = Some (\<lambda>j. if j = 5 then 1 else 0)"
  by (rule qft_roundtrip) simp_all

end
