(* ===== verification/Simulator_Noise.thy ===== *)
theory Simulator_Noise
  imports Simulator Semantics
begin

text \<open>
  The noise channel of \<open>#applyStochasticNoise\<close> (\<open>src/src/core/simulator.js\<close>, lines
  75--119) on the abstract state. The gate-error branch XORs the qubit's bit into every
  active index, which is the X gate.
\<close>

lemma fold_update_each:
  assumes "n \<le> length xs"
  shows "fold (\<lambda>i ys. ys[i := f (ys ! i)]) [0..<n] xs = map f (take n xs) @ drop n xs"
  using assms
proof (induction n)
  case 0
  then show ?case by simp
next
  case (Suc n)
  have d: "drop n xs = xs ! n # drop (Suc n) xs" using Suc.prems by (simp add: Cons_nth_drop_Suc)
  show ?case
    using Suc by (simp add: take_Suc_conv_app_nth list_update_append nth_append d)
qed

lemma length_fold_update: "length (fold (\<lambda>i ys. ys[i := g i ys]) idx xs) = length xs"
  by (induction idx arbitrary: xs) simp_all

lemma entries_xor_active:
  assumes "buffers_ok s"
  shows "entries (xor_active b s) = map (\<lambda>(i, z). (u64 (i XOR b), z)) (entries s)"
proof -
  have n: "activeCount s \<le> length (indices s)" using assms by (simp add: buffers_ok_def)
  have f: "fold (\<lambda>i idxs. idxs[i := u64 (idxs ! i XOR b)]) [0..<activeCount s] (indices s) =
      map (\<lambda>x. u64 (x XOR b)) (take (activeCount s) (indices s)) @ drop (activeCount s) (indices s)"
    using fold_update_each [OF n, of "\<lambda>x. u64 (x XOR b)"] by simp
  show ?thesis
    using n by (simp add: xor_active_def entries_def view_def f nth_append)
qed

lemma amp_of_map_involution:
  assumes "\<And>x. g (g x) = x"
  shows "amp_of (map (\<lambda>(i, z). (g i, z)) es) j = amp_of es (g j)"
proof -
  have "\<And>i. (g i = j) = (i = g j)" using assms by metis
  then show ?thesis by (induction es) (auto simp: amp_of_def)
qed

lemma gate1_X: "gate1 X_mat (2 ^ k) \<psi> j = \<psi> (j XOR 2 ^ k)"
proof (cases "bit j k")
  case True
  have "j AND NOT (2 ^ k) = j XOR 2 ^ k" using True by (intro bit_eqI) (auto simp: bit_simps)
  then show ?thesis
    using True by (simp add: gate1_def and_exp_nonzero_iff X_mat_def mat_entry_def Complex_eq)
next
  case False
  have "j OR 2 ^ k = j XOR 2 ^ k" using False by (intro bit_eqI) (auto simp: bit_simps)
  then show ?thesis
    using False by (simp add: gate1_def and_exp_nonzero_iff X_mat_def mat_entry_def Complex_eq)
qed

lemma u64_xor_exp:
  assumes "u64 i = i" and "k < 64"
  shows "u64 (i XOR 2 ^ k) = i XOR 2 ^ k"
proof -
  have "take_bit 64 (2 ^ k :: int) = 2 ^ k" using assms(2) by (simp add: take_bit_eq_self_iff_drop_bit_eq_0 drop_bit_exp_eq)
  then show ?thesis using assms(1) by (simp add: u64_def take_bit_xor)
qed

lemma sparse_ok_xor_active:
  assumes "sparse_ok s" and "k < 64"
  shows "sparse_ok (xor_active (2 ^ k) s)"
    and "entries (xor_active (2 ^ k) s) = map (\<lambda>(i, z). (i XOR 2 ^ k, z)) (entries s)"
proof -
  have b: "buffers_ok s" using assms(1) by (simp add: sparse_ok_def)
  have r: "\<forall>(i, z) \<in> set (entries s). u64 i = i" using assms(1) by (simp add: sparse_ok_def)
  show e: "entries (xor_active (2 ^ k) s) = map (\<lambda>(i, z). (i XOR 2 ^ k, z)) (entries s)"
    using r assms(2) by (auto simp: entries_xor_active [OF b] u64_xor_exp)
  have "inj (\<lambda>i::int. i XOR 2 ^ k)" by (rule injI) (metis xor.assoc xor_self_eq xor.right_neutral)
  then have "distinct (map fst (entries (xor_active (2 ^ k) s)))"
    using assms(1) by (simp add: e sparse_ok_def case_prod_beta comp_def distinct_map inj_on_def inj_def)
  moreover have "buffers_ok (xor_active (2 ^ k) s)"
    using b by (simp add: xor_active_def buffers_ok_def length_fold_update)
  ultimately show "sparse_ok (xor_active (2 ^ k) s)"
    using r assms(2) by (auto simp: sparse_ok_def e u64_xor_exp)
qed

lemma sparse_ok_draws: "sparse_ok (s\<lparr>draws := d\<rparr>) = sparse_ok s"
  by (simp add: sparse_ok_def buffers_ok_def entries_def)

lemma noise_qubit_gate_error:
  assumes "gateError nm = 1" and "t1 nm = 0" and "t2 nm = 0" and "qubitMap s q = Some k"
    and "rng s (draws s) < 1" and "0 \<le> rng s (Suc (draws s))"
  shows "noise_qubit nm q s = Inr ((xor_active (2 ^ k) (s\<lparr>draws := Suc (draws s)\<rparr>))\<lparr>draws := Suc (Suc (draws s))\<rparr>)"
  using assms by (simp add: noise_qubit_def qubit_bit_def random_def xor_active_def not_less)

text \<open>
  C29. A saturated gate error is an X gate (the spec's scenario 4): with \<open>gateError = 1\<close>
  and no \<open>t1\<close>/\<open>t2\<close> channel, the noise on a qubit at position \<open>k < 64\<close> of a well-formed
  state consumes two draws of \<open>Math.random()\<close> and maps the state by the X matrix of the
  catalog on bit \<open>k\<close>, keeping it well-formed.
\<close>

theorem noise_gateError_is_X:
  assumes "gateError nm = 1" and "t1 nm = 0" and "t2 nm = 0" and "qubitMap s q = Some k" and "k < 64"
    and "sparse_ok s" and "rng s (draws s) < 1" and "0 \<le> rng s (Suc (draws s))"
  shows "\<exists>s'. noise_qubit nm q s = Inr s' \<and> sparse_ok s' \<and> draws s' = draws s + 2 \<and>
              amp_of (entries s') = gate1 X_mat (2 ^ k) (amp_of (entries s))"
proof -
  let ?s1 = "s\<lparr>draws := Suc (draws s)\<rparr>"
  let ?s' = "(xor_active (2 ^ k) ?s1)\<lparr>draws := Suc (Suc (draws s))\<rparr>"
  have ok1: "sparse_ok ?s1" using assms(6) by (simp add: sparse_ok_draws)
  have e1: "entries ?s1 = entries s" by (simp add: entries_def)
  have inv: "\<And>x::int. (x XOR 2 ^ k) XOR 2 ^ k = x" by (metis xor.assoc xor_self_eq xor.right_neutral)
  have "entries ?s' = map (\<lambda>(i, z). (i XOR 2 ^ k, z)) (entries s)"
    using sparse_ok_xor_active(2) [OF ok1 assms(5)] e1 by (simp add: entries_def xor_active_def)
  then have "amp_of (entries ?s') = gate1 X_mat (2 ^ k) (amp_of (entries s))"
    using amp_of_map_involution [of "\<lambda>i. i XOR 2 ^ k", OF inv] by (simp add: fun_eq_iff gate1_X)
  moreover have "sparse_ok ?s'"
    using sparse_ok_xor_active(1) [OF ok1 assms(5)] by (simp add: sparse_ok_draws)
  moreover have "noise_qubit nm q s = Inr ?s'"
    using noise_qubit_gate_error [OF assms(1-4,7,8)] .
  ultimately show ?thesis by simp
qed

theorem noise_gateError_is_X_witness:
  "\<exists>s'. noise_qubit \<lparr>gateError = 1, readoutError = 0, t1 = 0, t2 = 0\<rparr> 0
          (Simulator [0] (Some \<lparr>gateError = 1, readoutError = 0, t1 = 0, t2 = 0\<rparr>) None (\<lambda>_. 0)) = Inr s' \<and>
        sparse_ok s' \<and> draws s' = 2 \<and>
        amp_of (entries s') = gate1 X_mat (2 ^ 0)
          (amp_of (entries (Simulator [0] (Some \<lparr>gateError = 1, readoutError = 0, t1 = 0, t2 = 0\<rparr>) None (\<lambda>_. 0))))"
proof -
  let ?s = "Simulator [0] (Some \<lparr>gateError = 1, readoutError = 0, t1 = 0, t2 = 0\<rparr>) None (\<lambda>_. 0)"
  have "qubitMap ?s 0 = Some 0" by (simp add: Simulator_def position_map_def)
  moreover have "draws ?s = 0" "rng ?s = (\<lambda>_. 0)" by (simp_all add: Simulator_def)
  ultimately show ?thesis
    using noise_gateError_is_X [of "\<lparr>gateError = 1, readoutError = 0, t1 = 0, t2 = 0\<rparr>" ?s 0 0]
      Simulator_sparse_ok by (simp add: numeral_2_eq_2)
qed

end
