(* ===== verification/Optimizer_Semantics.thy ===== *)
theory Optimizer_Semantics
  imports Optimizer Call_Semantics Simulator_Noise
begin

text \<open>
  The meaning of an optimizer input: each node of the unitary fragment (the gates
  without angles, \<open>H X Y Z S T\<close> on one handle, \<open>CNOT CZ SWAP\<close> on two, \<open>CCX\<close> on three
  distinct handles) acts on the abstract state by its catalog matrix, at the bit
  positions \<open>pos\<close> gives the handles, as \<open>run\<close> applies it. On that fragment
  \<open>Optimizer.prune\<close> (\<open>src/src/compiler/optimizer.js\<close>) preserves the meaning of the
  circuit exactly.
\<close>

definition instr_sem :: "(qubit \<Rightarrow> nat) \<Rightarrow> instr \<Rightarrow> qstate \<Rightarrow> qstate" where
  "instr_sem pos op =
     (case (GATES (gate op) (params op), qubit op) of
        (Some m, QOne q) \<Rightarrow> gate1 m (2 ^ pos q)
      | (Some m, QList qs) \<Rightarrow> gateN m (map pos qs)
      | _ \<Rightarrow> id)"

definition ops_sem :: "(qubit \<Rightarrow> nat) \<Rightarrow> instr list \<Rightarrow> qstate \<Rightarrow> qstate" where
  "ops_sem pos instrs = fold (instr_sem pos) instrs"

definition frag :: "instr \<Rightarrow> bool" where
  "frag op =
     (case qubit op of
        QOne q \<Rightarrow> gate op \<in> set [H, X, Y, Z, S, T]
      | QList qs \<Rightarrow> distinct qs \<and>
          (gate op \<in> set [CNOT, CZ, SWAP] \<and> length qs = 2 \<or> gate op = CCX \<and> length qs = 3)
      | QNull \<Rightarrow> False)"

section \<open>Gates on disjoint bits commute\<close>

lemma gate1_bit:
  "gate1 m (2 ^ k) \<psi> j =
     (if bit j k then mat_entry m 2 1 0 * \<psi> (unset_bit k j) + mat_entry m 2 1 1 * \<psi> j
      else mat_entry m 2 0 0 * \<psi> j + mat_entry m 2 0 1 * \<psi> (set_bit k j))"
proof -
  have "j AND NOT (2 ^ k) = unset_bit k j" "j OR 2 ^ k = set_bit k j"
    by (simp_all add: unset_bit_eq_and_not set_bit_eq_or)
  then show ?thesis by (simp add: gate1_def and_exp_nonzero_iff)
qed

lemma col_of_cong: "(\<And>p. p \<in> set ks \<Longrightarrow> bit i p = bit j p) \<Longrightarrow> col_of ks i = col_of ks j"
  by (induction ks) auto

lemma bit_set_field: "bit (set_field ks j r) p \<longleftrightarrow> (if p \<in> set ks then bit (offset ks r) p else bit j p)"
  by (auto simp: set_field_def bit_simps bit_maskN bit_offset_out)

lemma set_field_unset_bit:
  "k \<notin> set ks \<Longrightarrow> set_field ks (unset_bit k j) r = unset_bit k (set_field ks j r)"
  by (rule bit_eqI) (auto simp: bit_set_field bit_unset_bit_iff)

lemma set_field_set_bit:
  "k \<notin> set ks \<Longrightarrow> set_field ks (set_bit k j) r = set_bit k (set_field ks j r)"
  by (rule bit_eqI) (auto simp: bit_set_field bit_set_bit_iff)

lemma gate1_gateN_comm:
  assumes "k \<notin> set ks"
  shows "gate1 m (2 ^ k) (gateN m' ks \<psi>) = gateN m' ks (gate1 m (2 ^ k) \<psi>)"
proof
  fix j
  have c: "col_of ks (unset_bit k j) = col_of ks j" "col_of ks (set_bit k j) = col_of ks j"
    using assms by (auto intro: col_of_cong simp: bit_unset_bit_iff bit_set_bit_iff)
  have b: "bit (set_field ks j r) k = bit j k" for r
    using assms by (simp add: bit_set_field)
  show "gate1 m (2 ^ k) (gateN m' ks \<psi>) j = gateN m' ks (gate1 m (2 ^ k) \<psi>) j"
    using assms
    by (simp add: gate1_bit gateN_def b c set_field_unset_bit set_field_set_bit
        sum_distrib_left sum.distrib algebra_simps)
qed

lemma gate1_as_gateN: "gate1 m (2 ^ k) = gateN m [k]"
proof
  fix \<psi> :: qstate
  show "gate1 m (2 ^ k) \<psi> = gateN m [k] \<psi>"
  proof
    fix j
    have "set_field [k] j 0 = unset_bit k j" "set_field [k] j 1 = set_bit k j"
      by (rule bit_eqI, auto simp: bit_set_field bit_unset_bit_iff bit_set_bit_iff bit_exp_iff bit_0)+
    moreover have "bit j k \<Longrightarrow> set_bit k j = j" "\<not> bit j k \<Longrightarrow> unset_bit k j = j"
      by (rule bit_eqI, auto simp: bit_unset_bit_iff bit_set_bit_iff)+
    ultimately show "gate1 m (2 ^ k) \<psi> j = gateN m [k] \<psi> j"
      by (simp add: gate1_bit gateN_def numeral_2_eq_2 lessThan_Suc set_field_col_of)
  qed
qed

lemma gate1_gate1_comm:
  assumes "k \<noteq> k'"
  shows "gate1 m (2 ^ k) (gate1 m' (2 ^ k') \<psi>) = gate1 m' (2 ^ k') (gate1 m (2 ^ k) \<psi>)"
  using gate1_gateN_comm [of k "[k']" m m' \<psi>] assms by (simp add: gate1_as_gateN)

section \<open>Diagonal gates, and the commutation rules of the catalog\<close>

definition diag1 :: "real list \<Rightarrow> bool" where
  "diag1 m \<longleftrightarrow> mat_entry m 2 0 1 = 0 \<and> mat_entry m 2 1 0 = 0"

lemma diag1_ZST: "diag1 Z_mat" "diag1 S_mat" "diag1 T_mat"
  by (simp_all add: diag1_def mat_entry_def Z_mat_def S_mat_def T_mat_def Complex_eq)

lemma gate1_diag:
  "diag1 m \<Longrightarrow> gate1 m (2 ^ k) \<psi> j = (if bit j k then mat_entry m 2 1 1 else mat_entry m 2 0 0) * \<psi> j"
  by (simp add: gate1_bit diag1_def)

lemma gateN_diag:
  assumes d: "distinct ks"
    and z: "\<And>r c. r < 2 ^ length ks \<Longrightarrow> c < 2 ^ length ks \<Longrightarrow> r \<noteq> c \<Longrightarrow> mat_entry m (2 ^ length ks) r c = 0"
  shows "gateN m ks \<psi> j = mat_entry m (2 ^ length ks) (col_of ks j) (col_of ks j) * \<psi> j"
proof -
  let ?r = "col_of ks j"
  have "gateN m ks \<psi> j = (\<Sum>c<2 ^ length ks. if c = ?r then mat_entry m (2 ^ length ks) ?r ?r * \<psi> j else 0)"
    unfolding gateN_def
    by (rule sum.cong) (auto simp: z col_of_less set_field_col_of [OF d])
  then show ?thesis by (simp add: col_of_less)
qed

lemma CZ_entries:
  assumes "r < 4" and "c < 4" and "r \<noteq> c"
  shows "mat_entry CZ_mat 4 r c = 0"
  using less4_cases [OF assms(1)] less4_cases [OF assms(2)] assms(3)
  by (elim disjE) (simp_all add: mat_entry_def CZ_mat_def Complex_eq)

lemma CZ_sem:
  assumes "a \<noteq> b"
  shows "gateN CZ_mat [a, b] \<psi> j = (if bit j a \<and> bit j b then - \<psi> j else \<psi> j)"
proof -
  have "gateN CZ_mat [a, b] \<psi> j = mat_entry CZ_mat 4 (col_of [a, b] j) (col_of [a, b] j) * \<psi> j"
    using gateN_diag [of "[a, b]" CZ_mat] assms CZ_entries by simp
  then show ?thesis by (simp add: mat_entry_def CZ_mat_def Complex_eq)
qed

lemma diag_CNOT_comm:
  assumes "diag1 m" and "a \<noteq> b"
  shows "gate1 m (2 ^ a) (gateN CNOT_mat [a, b] \<psi>) = gateN CNOT_mat [a, b] (gate1 m (2 ^ a) \<psi>)"
  using assms by (intro ext) (simp add: CNOT_sem gate1_diag bit_xor_exp)

lemma diag_CZ_comm:
  assumes "diag1 m" and "a \<noteq> b"
  shows "gate1 m (2 ^ a) (gateN CZ_mat [a, b] \<psi>) = gateN CZ_mat [a, b] (gate1 m (2 ^ a) \<psi>)"
  using assms by (intro ext) (simp add: CZ_sem gate1_diag)

lemma X_CNOT_comm:
  assumes "a \<noteq> b"
  shows "gate1 X_mat (2 ^ b) (gateN CNOT_mat [a, b] \<psi>) = gateN CNOT_mat [a, b] (gate1 X_mat (2 ^ b) \<psi>)"
  using assms by (intro ext) (simp add: CNOT_sem gate1_X bit_xor_exp xor_exp_twice)

section \<open>Products of two equal gates\<close>

lemma set_unset_bit: "bit j k \<Longrightarrow> set_bit k (unset_bit k j) = j" "\<not> bit j k \<Longrightarrow> unset_bit k (set_bit k j) = j"
  by (rule bit_eqI, auto simp: bit_unset_bit_iff bit_set_bit_iff)+

lemma gate1_twice:
  "gate1 X_mat (2 ^ k) (gate1 X_mat (2 ^ k) \<psi>) = \<psi>"
  "gate1 Y_mat (2 ^ k) (gate1 Y_mat (2 ^ k) \<psi>) = \<psi>"
  "gate1 Z_mat (2 ^ k) (gate1 Z_mat (2 ^ k) \<psi>) = \<psi>"
  "gate1 S_mat (2 ^ k) (gate1 S_mat (2 ^ k) \<psi>) = gate1 Z_mat (2 ^ k) \<psi>"
  "gate1 T_mat (2 ^ k) (gate1 T_mat (2 ^ k) \<psi>) = gate1 S_mat (2 ^ k) \<psi>"
proof -
  show "gate1 X_mat (2 ^ k) (gate1 X_mat (2 ^ k) \<psi>) = \<psi>"
    by (intro ext) (simp add: gate1_X xor_exp_twice)
  show "gate1 Y_mat (2 ^ k) (gate1 Y_mat (2 ^ k) \<psi>) = \<psi>"
    by (intro ext) (simp add: gate1_bit bit_unset_bit_iff bit_set_bit_iff set_unset_bit
        mat_entry_def Y_mat_def Complex_eq)
  show "gate1 Z_mat (2 ^ k) (gate1 Z_mat (2 ^ k) \<psi>) = \<psi>"
    by (intro ext) (simp only: gate1_diag diag1_ZST, simp add: mat_entry_def Z_mat_def Complex_eq)
  show "gate1 S_mat (2 ^ k) (gate1 S_mat (2 ^ k) \<psi>) = gate1 Z_mat (2 ^ k) \<psi>"
    by (intro ext) (simp only: gate1_diag diag1_ZST, simp add: mat_entry_def Z_mat_def S_mat_def Complex_eq)
  have "Complex INV_SQRT2 INV_SQRT2 * Complex INV_SQRT2 INV_SQRT2 = \<i>"
    by (simp add: complex_eq_iff INV_SQRT2_def)
  then show "gate1 T_mat (2 ^ k) (gate1 T_mat (2 ^ k) \<psi>) = gate1 S_mat (2 ^ k) \<psi>"
    by (intro ext) (simp only: gate1_diag diag1_ZST, simp add: mat_entry_def T_mat_def S_mat_def
        cos_sin_pi_quarter Complex_eq mult.assoc [symmetric])
qed

section \<open>What \<open>canCommute\<close> grants on the fragment\<close>

lemma canCommute_shared:
  assumes "frag op" "qubit op = QOne q" "frag c" "Some q \<in> set (qref_list (qubit c))"
    and "canCommute op c"
  shows "(gate op \<in> set [Z, S, T] \<and> gate c \<in> set [CNOT, CZ] \<and> (\<exists>b. qubit c = QList [q, b])) \<or>
         (gate op = X \<and> gate c = CNOT \<and> (\<exists>a. qubit c = QList [a, q]))"
proof (cases "qubit c")
  case (QOne q')
  then show ?thesis
    using assms by (auto simp: frag_def canCommute_def COMMUTATION_RULES_def)
next
  case (QList qs)
  then show ?thesis
    using assms
    by (auto simp: frag_def canCommute_def COMMUTATION_RULES_def length_Suc_conv numeral_eq_Suc)
next
  case QNull
  then show ?thesis using assms by (simp add: frag_def)
qed

lemma frag_single:
  assumes "frag op" and "qubit op = QOne q"
  obtains m where "GATES (gate op) (params op) = Some m" and "instr_sem pos op = gate1 m (2 ^ pos q)"
  using assms by (auto simp: frag_def instr_sem_def)

lemma frag_multi:
  assumes "frag c" and "qubit c = QList qs"
  obtains m where "GATES (gate c) (params c) = Some m" and "instr_sem pos c = gateN m (map pos qs)"
  using assms by (auto simp: frag_def instr_sem_def)

text \<open>A one-handle node commutes with every node it does not share a handle with, and
  with every node \<open>canCommute\<close> lets it pass.\<close>

lemma frag_commute:
  assumes pos: "inj pos" and op: "frag op" "qubit op = QOne q" and c: "frag c"
    and cc: "Some q \<in> set (qref_list (qubit c)) \<Longrightarrow> canCommute op c"
  shows "instr_sem pos op (instr_sem pos c \<psi>) = instr_sem pos c (instr_sem pos op \<psi>)"
proof (cases "Some q \<in> set (qref_list (qubit c))")
  case False
  obtain m where m: "instr_sem pos op = gate1 m (2 ^ pos q)" using frag_single [OF op] by blast
  show ?thesis
  proof (cases "qubit c")
    case (QOne q')
    then obtain m' where "instr_sem pos c = gate1 m' (2 ^ pos q')" using frag_single [OF c] by blast
    moreover have "pos q \<noteq> pos q'" using False QOne pos by (auto dest: injD)
    ultimately show ?thesis using m gate1_gate1_comm by metis
  next
    case (QList qs)
    then obtain m' where "instr_sem pos c = gateN m' (map pos qs)" using frag_multi [OF c] by blast
    moreover have "pos q \<notin> set (map pos qs)" using False QList pos by (auto dest: injD)
    ultimately show ?thesis using m gate1_gateN_comm by metis
  next
    case QNull
    then show ?thesis using c by (simp add: frag_def)
  qed
next
  case True
  have ne: "q \<noteq> b" if "qubit c = QList [q, b]" for b using c that by (simp add: frag_def)
  have ne': "a \<noteq> q" if "qubit c = QList [a, q]" for a using c that by (simp add: frag_def)
  from canCommute_shared [OF op c True cc [OF True]] show ?thesis
  proof (elim disjE conjE exE)
    fix b assume g: "gate op \<in> set [Z, S, T]" "gate c \<in> set [CNOT, CZ]" and qc: "qubit c = QList [q, b]"
    have pb: "pos q \<noteq> pos b" using ne [OF qc] pos by (auto dest: injD)
    from g op(2) qc pb show ?thesis
      by (auto simp: instr_sem_def diag_CNOT_comm diag_CZ_comm diag1_ZST)
  next
    fix a assume g: "gate op = X" "gate c = CNOT" and qc: "qubit c = QList [a, q]"
    have pa: "pos a \<noteq> pos q" using ne' [OF qc] pos by (auto dest: injD)
    from g op(2) qc pa show ?thesis by (simp add: instr_sem_def X_CNOT_comm)
  qed
qed

section \<open>The wire scan\<close>

lemma scan_wire_passes:
  "scan_wire op outs ws = Some p \<Longrightarrow> i \<in> set (takeWhile (\<lambda>x. x \<noteq> p) ws) \<Longrightarrow>
     outs ! i = Some c \<Longrightarrow> canCommute op c"
  by (induction op outs ws rule: scan_wire.induct) (auto split: option.splits if_splits)

lemma sorted_wire_of: "sorted (wire_of outs q)"
proof -
  have "sorted (concat (map (\<lambda>i. case outs ! i of None \<Rightarrow> []
            | Some op \<Rightarrow> replicate (count_list (qref_list (qubit op)) q) i) [0..<n]))" for n
    by (induction n) (auto simp: sorted_append split: option.splits)
  then show ?thesis by (simp add: wire_of_def)
qed

lemma takeWhile_desc:
  "sorted_wrt (\<ge>) xs \<Longrightarrow> i \<in> set xs \<Longrightarrow> (p::nat) < i \<Longrightarrow> i \<in> set (takeWhile (\<lambda>x. x \<noteq> p) xs)"
  by (induction xs) auto

lemma partner_commutes:
  assumes ok: "wire_ok st" and f: "findCommutingPartner op (wireMap st) (optimized st) = Some p"
    and op: "qubit op = QOne q" and i: "p < i" "i < length (optimized st)"
    and c: "optimized st ! i = Some c" "Some q \<in> set (qref_list (qubit c))"
  shows "canCommute op c"
proof -
  let ?w = "wire_of (optimized st) (Some q)"
  have scan: "scan_wire op (optimized st) (rev ?w) = Some p"
    using f ok op by (simp add: findCommutingPartner_def wire_ok_def wire_get_def)
  have "count_list ?w i = count_list (qref_list (qubit c)) (Some q)"
    by (rule wire_of_count [OF c(1) i(2)])
  then have "i \<in> set ?w" using c(2) by (metis count_notin count_list_0_iff)
  moreover have "sorted_wrt (\<ge>) (rev ?w)" using sorted_wire_of by (simp add: sorted_wrt_rev)
  ultimately have "i \<in> set (takeWhile (\<lambda>x. x \<noteq> p) (rev ?w))"
    using i(1) by (intro takeWhile_desc) simp_all
  then show ?thesis using scan_wire_passes [OF scan] c(1) by blast
qed

section \<open>The pass preserves the meaning\<close>

lemma frag_not_identity: "frag op \<Longrightarrow> \<not> isIdentity op"
  by (auto simp: frag_def isIdentity_def split: qref.splits list.splits)

lemma ops_sem_append [simp]: "ops_sem pos (xs @ ys) = ops_sem pos ys \<circ> ops_sem pos xs"
  by (simp add: ops_sem_def)

lemma ops_sem_single [simp]: "ops_sem pos [op] = instr_sem pos op"
  by (simp add: ops_sem_def fun_eq_iff)

lemma ops_sem_Nil: "ops_sem pos [] = id"
  by (simp add: ops_sem_def fun_eq_iff)

lemma ops_sem_Cons: "ops_sem pos (x # xs) = ops_sem pos xs \<circ> instr_sem pos x"
  by (simp add: ops_sem_def fun_eq_iff)

lemma ops_sem_commute:
  assumes "\<And>c \<psi>. c \<in> set cs \<Longrightarrow> instr_sem pos op (instr_sem pos c \<psi>) = instr_sem pos c (instr_sem pos op \<psi>)"
  shows "ops_sem pos (cs @ [op]) = ops_sem pos ([op] @ cs)"
  using assms
proof (induction cs)
  case Nil
  then show ?case by simp
next
  case (Cons c cs)
  have IH0: "ops_sem pos (cs @ [op]) = ops_sem pos ([op] @ cs)"
    by (rule Cons.IH, rule Cons.prems) simp
  have IH: "ops_sem pos (cs @ [op]) \<phi> = ops_sem pos ([op] @ cs) \<phi>" for \<phi>
    by (rule fun_cong [OF IH0])
  show ?case
  proof
    fix \<psi>
    have "ops_sem pos ((c # cs) @ [op]) \<psi> = ops_sem pos (cs @ [op]) (instr_sem pos c \<psi>)"
      by (simp add: ops_sem_def del: ops_sem_append)
    also have "\<dots> = ops_sem pos cs (instr_sem pos op (instr_sem pos c \<psi>))"
      using IH by (simp add: ops_sem_def del: ops_sem_append)
    also have "\<dots> = ops_sem pos cs (instr_sem pos c (instr_sem pos op \<psi>))"
      using Cons.prems [of c] by simp
    also have "\<dots> = ops_sem pos ([op] @ c # cs) \<psi>"
      by (simp add: ops_sem_def del: ops_sem_append)
    finally show "ops_sem pos ((c # cs) @ [op]) \<psi> = ops_sem pos ([op] @ c # cs) \<psi>" .
  qed
qed

lemma map_filter_split:
  assumes "outs ! p = Some c" and "p < length outs"
  shows "List.map_filter id outs =
           List.map_filter id (take p outs) @ c # List.map_filter id (drop (Suc p) outs)"
    and "List.map_filter id (outs[p := v]) =
           List.map_filter id (take p outs) @ List.map_filter id [v] @ List.map_filter id (drop (Suc p) outs)"
proof -
  show "List.map_filter id outs =
           List.map_filter id (take p outs) @ c # List.map_filter id (drop (Suc p) outs)"
    by (subst id_take_nth_drop [OF assms(2)]) (simp add: assms(1) map_filter_simps)
  show "List.map_filter id (outs[p := v]) =
           List.map_filter id (take p outs) @ List.map_filter id [v] @ List.map_filter id (drop (Suc p) outs)"
    by (simp add: upd_conv_take_nth_drop [OF assms(2)] map_filter_simps split: option.split)
qed

lemma in_map_filter_drop:
  assumes "c \<in> set (List.map_filter id (drop (Suc p) outs))"
  obtains i where "p < i" "i < length outs" "outs ! i = Some c"
proof -
  have "Some c \<in> set (drop (Suc p) outs)"
    using assms by (auto simp: map_filter_def)
  then obtain k where "k < length outs - Suc p" "drop (Suc p) outs ! k = Some c"
    by (auto simp: in_set_conv_nth)
  then show ?thesis using that [of "Suc p + k"] by simp
qed

lemma map_filter_snoc: "List.map_filter id (xs @ [Some op]) = List.map_filter id xs @ [op]"
  by (simp add: map_filter_simps)

lemma partner_pair:
  assumes "frag op" "qubit op = QOne q" "qubit c = QOne q" "gate c = gate op"
  shows "ops_sem pos [c, op] =
           (if gate op = S then instr_sem pos (set_gate Z c)
            else if gate op = T then instr_sem pos (set_gate S c) else id)"
proof -
  have "gate op = H \<or> gate op = X \<or> gate op = Y \<or> gate op = Z \<or> gate op = S \<or> gate op = T"
    using assms(1,2) by (simp add: frag_def)
  then show ?thesis
    using assms(2-4)
    by (elim disjE) (simp_all add: ops_sem_def instr_sem_def set_gate_def fun_eq_iff gate1_twice H_involution)
qed

text \<open>One step of the pass keeps the live nodes in the fragment and their meaning equal to
  that of the nodes read so far.\<close>

lemma opt_step_sem:
  assumes pos: "inj pos" and ok: "wire_ok st"
    and fr: "list_all frag (List.map_filter id (optimized st))" and op: "frag op"
  shows "list_all frag (List.map_filter id (optimized (opt_step op st))) \<and>
         ops_sem pos (List.map_filter id (optimized (opt_step op st))) =
           ops_sem pos (List.map_filter id (optimized st) @ [op])"
proof (cases "findCommutingPartner op (wireMap st) (optimized st)")
  case None
  then show ?thesis
    using fr op frag_not_identity [OF op] by (simp add: opt_step_def push_op_def map_filter_snoc)
next
  case (Some p)
  obtain q where q: "qubit op = QOne q"
    using Some op by (cases "qubit op") (auto simp: findCommutingPartner_def frag_def Let_def)
  obtain c where p: "p < length (optimized st)" and c: "optimized st ! p = Some c"
    and gc: "gate c = gate op" and qc: "areQubitsEqual (qubit c) (qubit op)"
    using findCommutingPartner_Some [OF ok Some] by blast
  have qc': "qubit c = QOne q" using qc q by (cases "qubit c") auto
  define A where "A = List.map_filter id (take p (optimized st))"
  define B where "B = List.map_filter id (drop (Suc p) (optimized st))"
  have live: "List.map_filter id (optimized st) = A @ [c] @ B"
    using map_filter_split(1) [OF c p] by (simp add: A_def B_def)
  have upd: "List.map_filter id ((optimized st)[p := v]) = A @ List.map_filter id [v] @ B" for v
    using map_filter_split(2) [OF c p] by (simp add: A_def B_def)
  have fA: "list_all frag A" and fc: "frag c" and fB: "list_all frag B" using fr live by auto
  have comm: "instr_sem pos op (instr_sem pos c' \<psi>) = instr_sem pos c' (instr_sem pos op \<psi>)"
    if "c' \<in> set B" for c' \<psi>
  proof -
    have "c' \<in> set (List.map_filter id (drop (Suc p) (optimized st)))" using that by (simp add: B_def)
    then obtain i where i: "p < i" "i < length (optimized st)" "optimized st ! i = Some c'"
      by (rule in_map_filter_drop)
    have "frag c'" using fB that by (simp add: list_all_iff)
    then show ?thesis using frag_commute [OF pos op q] partner_commutes [OF ok Some q i] by blast
  qed
  have m0: "ops_sem pos (B @ [op]) = ops_sem pos ([op] @ B)"
    by (rule ops_sem_commute) (rule comm)
  have cop: "ops_sem pos [c, op] = ops_sem pos [op] \<circ> ops_sem pos [c]"
    by (simp add: ops_sem_def fun_eq_iff del: ops_sem_append)
  have m0': "ops_sem pos [op] \<circ> ops_sem pos B = ops_sem pos B \<circ> ops_sem pos [op]"
    using m0 by (simp only: ops_sem_append)
  have move: "ops_sem pos (A @ [c] @ B @ [op]) = ops_sem pos B \<circ> ops_sem pos [c, op] \<circ> ops_sem pos A"
    by (simp only: ops_sem_append cop m0' comp_assoc [symmetric])
  note pair = partner_pair [OF op q qc' gc, of pos]
  have g: "gate op \<in> set [H, X, Y, Z, S, T]" using op q by (simp add: frag_def)
  have nr: "gate op \<notin> set [RX, RY, RZ]" using g by auto
  have fz: "frag (set_gate g c)" if "g \<in> set [H, X, Y, Z, S, T]" for g
    using that qc' by (simp add: frag_def set_gate_def)
  have base: "opt_step op st =
      (if gate op = S then st\<lparr>optimized := (optimized st)[p := Some (set_gate Z c)]\<rparr>
       else if gate op = T then st\<lparr>optimized := (optimized st)[p := Some (set_gate S c)]\<rparr>
       else st\<lparr>wireMap := removeFromWires p c (wireMap st), optimized := (optimized st)[p := None]\<rparr>)"
    using g Some c gc frag_not_identity [OF op] by (auto simp: opt_step_def Let_def selfInverses_def)
  have sem: "ops_sem pos (List.map_filter id (optimized st) @ [op]) = ops_sem pos B \<circ> ops_sem pos [c, op] \<circ> ops_sem pos A"
    using live move by simp
  have fin: "?thesis" if "List.map_filter id (optimized (opt_step op st)) = L" and "list_all frag L"
    and "ops_sem pos L = ops_sem pos B \<circ> ops_sem pos [c, op] \<circ> ops_sem pos A" for L
    using that sem by simp
  consider "gate op = S" | "gate op = T" | "gate op \<noteq> S" "gate op \<noteq> T" by blast
  then show ?thesis
  proof cases
    case 1
    have "ops_sem pos [c, op] = instr_sem pos (set_gate Z c)" using pair 1 by simp
    then show ?thesis
      using 1 base upd fA fB fz [of Z]
      by (intro fin [of "A @ [set_gate Z c] @ B"]) (simp_all add: map_filter_simps ops_sem_Cons comp_assoc)
  next
    case 2
    have "ops_sem pos [c, op] = instr_sem pos (set_gate S c)" using pair 2 by simp
    then show ?thesis
      using 2 base upd fA fB fz [of S]
      by (intro fin [of "A @ [set_gate S c] @ B"]) (simp_all add: map_filter_simps ops_sem_Cons comp_assoc)
  next
    case 3
    have "ops_sem pos [c, op] = id" using pair 3 by simp
    then show ?thesis
      using 3 base upd fA fB
      by (intro fin [of "A @ B"]) (simp_all add: map_filter_simps)
  qed
qed

lemma prune_pass_sem:
  assumes pos: "inj pos" and "wire_ok st" and "list_all frag (List.map_filter id (optimized st))"
    and "list_all frag instrs"
  shows "list_all frag (List.map_filter id (optimized (fold opt_step instrs st))) \<and>
         ops_sem pos (List.map_filter id (optimized (fold opt_step instrs st))) =
           ops_sem pos instrs \<circ> ops_sem pos (List.map_filter id (optimized st))"
  using assms(2-)
proof (induction instrs arbitrary: st)
  case Nil
  then show ?case by (simp add: ops_sem_def)
next
  case (Cons op instrs)
  let ?L0 = "List.map_filter id (optimized st)"
  let ?L1 = "List.map_filter id (optimized (opt_step op st))"
  have fop: "frag op" and fis: "list_all frag instrs" using Cons.prems(3) by simp_all
  from opt_step_sem [OF pos Cons.prems(1,2) fop]
  have f1: "list_all frag ?L1" and e1: "ops_sem pos ?L1 = ops_sem pos (?L0 @ [op])" by simp_all
  have "wire_ok (opt_step op st)" by (rule opt_step_wire_ok [OF Cons.prems(1)])
  note IH = Cons.IH [OF this f1 fis]
  have "ops_sem pos instrs \<circ> ops_sem pos ?L1 = ops_sem pos (op # instrs) \<circ> ops_sem pos ?L0"
    by (simp only: e1 ops_sem_Cons ops_sem_Nil id_comp ops_sem_append ops_sem_single comp_assoc)
  moreover from IH have "list_all frag (List.map_filter id (optimized (fold opt_step instrs (opt_step op st))))"
    and "ops_sem pos (List.map_filter id (optimized (fold opt_step instrs (opt_step op st)))) =
           ops_sem pos instrs \<circ> ops_sem pos ?L1" by blast+
  ultimately show ?case by (simp only: fold_Cons comp_apply)
qed

lemma Optimizer_prune_live:
  "list_all frag instrs \<Longrightarrow>
     Optimizer_prune instrs = List.map_filter id (optimized (fold opt_step instrs \<lparr>wireMap = Map.empty, optimized = []\<rparr>))"
  using prune_pass_sem [OF inj_on_id wire_ok_init, of instrs]
  by (simp add: Optimizer_prune_def Let_def list_all_iff frag_not_identity map_filter_simps)

text \<open>
  C31. On circuits of the unitary fragment (no IF, WHILE, MEASURE, RESET or angle
  gates, each multi-qubit gate on distinct handles), \<open>Optimizer.prune\<close> preserves the
  meaning of the circuit exactly: every cancellation, every merge \<open>S S = Z\<close>, \<open>T T = S\<close>,
  and every commutation it performs is justified by the catalog matrices, provided
  distinct handles sit at distinct bit positions.
\<close>

theorem Optimizer_prune_sound:
  assumes "inj pos" and "list_all frag instrs"
  shows "ops_sem pos (Optimizer_prune instrs) = ops_sem pos instrs"
  using prune_pass_sem [OF assms(1) wire_ok_init _ assms(2)] Optimizer_prune_live [OF assms(2)]
  by (simp add: map_filter_simps ops_sem_def)

theorem Optimizer_prune_sound_witness:
  "Optimizer_prune [Instr H (QOne 0) [] None None, Instr X (QOne 1) [] None None,
                    Instr H (QOne 0) [] None None] = [Instr X (QOne 1) [] None None] \<and>
   ops_sem id [Instr X (QOne 1) [] None None] =
     ops_sem id [Instr H (QOne 0) [] None None, Instr X (QOne 1) [] None None,
                 Instr H (QOne 0) [] None None]"
proof -
  let ?c = "[Instr H (QOne 0) [] None None, Instr X (QOne 1) [] None None, Instr H (QOne 0) [] None None]"
  have p: "Optimizer_prune ?c = [Instr X (QOne 1) [] None None]"
    by (simp add: Optimizer_prune_def opt_step_def isIdentity_def findCommutingPartner_def
        push_op_def canCommute_def selfInverses_def removeFromWires_def COMMUTATION_RULES_def)
  have "list_all frag ?c" by (simp add: frag_def)
  then show ?thesis using Optimizer_prune_sound [OF inj_on_id] p by metis
qed



end
