(* ===== verification/Simulator_FastPaths.thy ===== *)
theory Simulator_FastPaths
  imports Simulator_Multi Optimizer_Semantics
begin

text \<open>
  The CZ, CNOT and SWAP fast paths of \<open>apply2QubitGate\<close> (\<open>src/src/core/simulator.js\<close>,
  lines 279--300): instead of the four-row scatter they move or negate each entry once
  through \<open>#accumulate\<close>. The lemmas show that each path computes the action \<open>gateN\<close> of the
  gate's catalog matrix, so that the fast paths and the matrices of \<open>GATES\<close> agree.
\<close>

section \<open>Index maps of the fast paths\<close>

lemma and_two_bits_iff:
  assumes "a \<noteq> b"
  shows "((j::int) AND (2 ^ a OR 2 ^ b) = 2 ^ a OR 2 ^ b) \<longleftrightarrow> bit j a \<and> bit j b"
proof
  assume e: "j AND (2 ^ a OR 2 ^ b) = 2 ^ a OR 2 ^ b"
  have "bit (j AND (2 ^ a OR 2 ^ b)) a" "bit (j AND (2 ^ a OR 2 ^ b)) b"
    unfolding e by (simp_all add: bit_or_iff bit_exp_iff)
  then show "bit j a \<and> bit j b" by (simp add: bit_and_iff)
next
  assume "bit j a \<and> bit j b"
  then show "j AND (2 ^ a OR 2 ^ b) = 2 ^ a OR 2 ^ b"
    by (intro bit_eqI) (auto simp: bit_and_iff bit_or_iff bit_exp_iff)
qed

lemma or_exp_eq_xor:
  assumes "a \<noteq> b"
  shows "(2 ^ a OR 2 ^ b :: int) = 2 ^ a XOR 2 ^ b"
  using assms by (intro bit_eqI) (auto simp: bit_or_iff bit_xor_iff bit_exp_iff)

lemma cnot_idx_involution:
  assumes "a \<noteq> b"
  shows "(if (if bit x a then x XOR 2 ^ b else x) AND 2 ^ a \<noteq> 0
          then (if bit x a then x XOR 2 ^ b else x) XOR 2 ^ b
          else (if bit x a then x XOR 2 ^ b else (x::int))) = x"
  using assms by (simp add: and_exp_nonzero_iff bit_xor_exp xor_exp_twice)

lemma swap_idx_involution:
  assumes "a \<noteq> b"
  defines "f \<equiv> \<lambda>x::int. if bit x a \<noteq> bit x b then x XOR 2 ^ a XOR 2 ^ b else x"
  shows "f (f x) = x"
proof -
  have "bit (x XOR 2 ^ a XOR 2 ^ b) a = (\<not> bit x a)" "bit (x XOR 2 ^ a XOR 2 ^ b) b = (\<not> bit x b)"
    using assms(1) by (auto simp: bit_xor_iff bit_exp_iff)
  moreover have "(x XOR 2 ^ a XOR 2 ^ b) XOR 2 ^ a XOR 2 ^ b = x"
    by (intro bit_eqI) (auto simp: bit_xor_iff)
  ultimately show ?thesis by (auto simp: f_def)
qed

section \<open>The generic fast path\<close>

text \<open>
  A fast path whose entry body accumulates every entry at \<open>f idx\<close> with factor \<open>sg idx\<close>
  computes \<open>gateN mat\<close> when \<open>f\<close> is an involution of the 64-bit indices and the matrix
  action is the same move and scaling.
\<close>

lemma apply2_fast_scatter:
  assumes ok: "sparse_ok s" and q: "qubitMap s q1 = Some k1" "qubitMap s q2 = Some k2"
    and m: "GATES g ps = Some mat"
    and e: "apply2_entry g mat (2 ^ k1) (2 ^ k2) =
              (\<lambda>idx re im. accumulate_next (f idx) (re * sg idx) (im * sg idx))"
    and inv: "\<And>x. f (f x) = x" and rng: "\<And>i. u64 i = i \<Longrightarrow> u64 (f i) = f i"
    and sem: "\<And>\<psi> j. of_real (sg (f j)) * \<psi> (f j) = gateN mat [k1, k2] \<psi> j"
  shows "\<exists>a cs. apply2QubitGate g q1 q2 ps s = Inr (prune (scatter_commit (ensureCapacity (activeCount s * 4) s) a)) \<and>
     buffers_ok (ensureCapacity (activeCount s * 4) s) \<and>
     memoryBudget (ensureCapacity (activeCount s * 4) s) = memoryBudget s \<and>
     scat_inv (length (indices (ensureCapacity (activeCount s * 4) s))) cs a \<and>
     (\<forall>t \<in> fst ` set cs. u64 t = t) \<and> length cs \<le> activeCount s \<and>
     amp_of cs = gateN mat [k1, k2] (amp_of (entries s))"
proof -
  let ?s1 = "ensureCapacity (activeCount s * 4) s"
  let ?a = "scatter_all (\<lambda>idx re im. accumulate_next (f idx) (re * sg idx) (im * sg idx)) ?s1 (scatter_init ?s1)"
  note b = perm_scatter(1,2) [OF ok inv rng, where c = 4]
  note p = perm_scatter(3-6) [OF ok inv rng, where c = 4 and sg = sg]
  have "apply2QubitGate g q1 q2 ps s = Inr (prune (scatter_commit ?s1 ?a))"
    using q m e by (simp add: apply2QubitGate_def qubit_bit_def Let_def)
  moreover have "amp_of (map (\<lambda>(i, z). (f i, of_real (sg i) * z)) (entries ?s1)) =
      gateN mat [k1, k2] (amp_of (entries s))"
    using p(4) sem by (simp add: fun_eq_iff)
  ultimately show ?thesis using b p(1,2,3) by blast
qed

section \<open>The three fast paths\<close>

lemma apply2_entry_CNOT:
  "apply2_entry CNOT m (2 ^ k1) (2 ^ k2) =
     (\<lambda>idx re im. accumulate_next (if bit idx k1 then idx XOR 2 ^ k2 else idx) (re * 1) (im * 1))"
  by (simp add: apply2_entry_def and_exp_nonzero_iff fun_eq_iff)

lemma apply2_entry_SWAP:
  assumes "k1 \<noteq> k2"
  shows "apply2_entry SWAP m (2 ^ k1) (2 ^ k2) =
     (\<lambda>idx re im. accumulate_next (if bit idx k1 \<noteq> bit idx k2 then idx XOR 2 ^ k1 XOR 2 ^ k2 else idx)
                                  (re * 1) (im * 1))"
  using assms by (simp add: apply2_entry_def and_exp_nonzero_iff or_exp_eq_xor fun_eq_iff)

lemma apply2_entry_CZ:
  "apply2_entry CZ m (2 ^ k1) (2 ^ k2) =
     (\<lambda>idx re im. accumulate_next idx
        (re * (if idx AND (2 ^ k1 OR 2 ^ k2) = 2 ^ k1 OR 2 ^ k2 then -1 else 1))
        (im * (if idx AND (2 ^ k1 OR 2 ^ k2) = 2 ^ k1 OR 2 ^ k2 then -1 else 1)))"
  by (simp add: apply2_entry_def Let_def fun_eq_iff)

lemma u64_xor_two_exp:
  assumes "u64 i = i" and "a < 64" and "b < 64"
  shows "u64 (i XOR 2 ^ a XOR 2 ^ b) = i XOR 2 ^ a XOR 2 ^ b"
  using u64_xor_exp [OF u64_xor_exp [OF assms(1,2)] assms(3)] by (simp add: xor.assoc)

text \<open>Each fast path accumulates every entry at an involution of its index, with a real
  factor, and that move is the action of the gate's catalog matrix.\<close>

lemma fast_path_data:
  assumes k: "k1 \<noteq> k2" "k1 < 64" "k2 < 64" and g: "g \<in> {CZ, CNOT, SWAP}" and m: "GATES g ps = Some mat"
  shows "\<exists>f sg. apply2_entry g mat (2 ^ k1) (2 ^ k2) =
                  (\<lambda>idx re im. accumulate_next (f idx) (re * sg idx) (im * sg idx)) \<and>
           (\<forall>x. f (f x) = x) \<and> (\<forall>i. u64 i = i \<longrightarrow> u64 (f i) = f i) \<and>
           (\<forall>\<psi> j. of_real (sg (f j)) * \<psi> (f j) = gateN mat [k1, k2] \<psi> j)"
proof -
  consider "g = CZ" | "g = CNOT" | "g = SWAP" using g by blast
  then show ?thesis
  proof cases
    case 1
    have mat: "mat = CZ_mat" using m 1 by simp
    show ?thesis unfolding 1 mat
      by (intro exI conjI allI impI, rule apply2_entry_CZ)
         (simp_all add: CZ_sem [OF k(1)] and_two_bits_iff [OF k(1)])
  next
    case 2
    have mat: "mat = CNOT_mat" using m 2 by simp
    show ?thesis unfolding 2 mat
      by (intro exI conjI allI impI, rule apply2_entry_CNOT)
         (simp_all add: CNOT_sem [OF k(1)] cnot_idx_involution [OF k(1), simplified and_exp_nonzero_iff]
           bit_xor_exp k u64_xor_exp)
  next
    case 3
    have mat: "mat = SWAP_mat" using m 3 by simp
    show ?thesis unfolding 3 mat
      by (intro exI conjI allI impI, rule apply2_entry_SWAP [OF k(1)])
         (simp_all add: SWAP_sem [OF k(1)] swap_idx_involution [OF k(1), simplified] k u64_xor_two_exp)
  qed
qed

text \<open>
  C38. The fast paths of \<open>apply2QubitGate\<close> are equivalent to the catalog matrices: for
  CZ (a sign flip where both bits are set), CNOT (flip the target bit where the control
  bit is set) and SWAP (exchange the two bits where they differ), on two distinct mapped
  qubits at positions below 64 of a well-formed sparse state, the call succeeds, keeps the
  invariant and yields the matrix action \<open>gateN\<close> of \<open>GATES g\<close> on \<open>[k1, k2]\<close>, cut at the
  prune threshold, which is at most the base one while the state is within its budget.
\<close>

theorem apply2QubitGate_fast_refines:
  assumes ok: "sparse_ok s" and q: "qubitMap s q1 = Some k1" "qubitMap s q2 = Some k2"
    and k: "k1 \<noteq> k2" "k1 < 64" "k2 < 64" and g: "g \<in> {CZ, CNOT, SWAP}" and m: "GATES g ps = Some mat"
  shows "\<exists>s' thr. apply2QubitGate g q1 q2 ps s = Inr s' \<and> sparse_ok s' \<and>
     prune_base \<le> thr \<and> thr \<le> prune_base * max 1 (real (activeCount s) / real (memoryBudget s)) \<and>
     amp_of (entries s') = prune_amp thr (gateN mat [k1, k2] (amp_of (entries s)))"
proof -
  obtain f sg where e: "apply2_entry g mat (2 ^ k1) (2 ^ k2) =
                  (\<lambda>idx re im. accumulate_next (f idx) (re * sg idx) (im * sg idx))"
    and d: "\<forall>x. f (f x) = x" "\<forall>i. u64 i = i \<longrightarrow> u64 (f i) = f i"
           "\<forall>\<psi> j. of_real (sg (f j)) * \<psi> (f j) = gateN mat [k1, k2] \<psi> j"
    using fast_path_data [OF k g m] by blast
  obtain a cs where f: "apply2QubitGate g q1 q2 ps s = Inr (prune (scatter_commit (ensureCapacity (activeCount s * 4) s) a))"
    "buffers_ok (ensureCapacity (activeCount s * 4) s)"
    "memoryBudget (ensureCapacity (activeCount s * 4) s) = memoryBudget s"
    "scat_inv (length (indices (ensureCapacity (activeCount s * 4) s))) cs a"
    "\<forall>t \<in> fst ` set cs. u64 t = t" "length cs \<le> activeCount s"
    "amp_of cs = gateN mat [k1, k2] (amp_of (entries s))"
    using apply2_fast_scatter [OF ok q m e] d by blast
  show ?thesis using scatter_prune [OF f(2,4,5,6)] f(1,3,7) by auto
qed

theorem apply2QubitGate_fast_refines_witness:
  "\<exists>s' thr. apply2QubitGate CNOT 0 1 [] (Simulator [0, 1] None None (\<lambda>_. 0)) = Inr s' \<and> sparse_ok s' \<and>
     prune_base \<le> thr \<and> thr \<le> prune_base \<and>
     amp_of (entries s') = prune_amp thr (gateN CNOT_mat [0, 1] (\<lambda>j. if j = 0 then 1 else 0))"
proof -
  let ?s0 = "Simulator [0, 1] None None (\<lambda>_. 0)"
  have q: "qubitMap ?s0 0 = Some 0" "qubitMap ?s0 1 = Some 1" by (simp_all add: Simulator_def position_map_def)
  have c: "activeCount ?s0 = 1" "memoryBudget ?s0 = 5000" by (simp_all add: Simulator_def)
  have "\<exists>s' thr. apply2QubitGate CNOT 0 1 [] ?s0 = Inr s' \<and> sparse_ok s' \<and>
     prune_base \<le> thr \<and> thr \<le> prune_base * max 1 (real (activeCount ?s0) / real (memoryBudget ?s0)) \<and>
     amp_of (entries s') = prune_amp thr (gateN CNOT_mat [0, 1] (amp_of (entries ?s0)))"
    by (rule apply2QubitGate_fast_refines [OF Simulator_sparse_ok q]) simp_all
  then show ?thesis by (simp only: c Simulator_amp) simp
qed

end
