(* ===== verification/Simulator_Reset.thy ===== *)
theory Simulator_Reset
  imports Simulator_Gates Simulator_Measure Simulator_Noise
begin

text \<open>
  The RESET branch of \<open>run\<close> (\<open>src/src/core/simulator.js\<close>): measure the qubit, apply X
  when the outcome is 1, prune. The lemmas follow the support of the abstract state
  through the three steps.
\<close>

lemma amp_of_distinct_mem:
  "distinct (map fst es) \<Longrightarrow> (i, z) \<in> set es \<Longrightarrow> amp_of es i = z"
  by (induction es) (force simp: amp_of_notin)+

lemma amp_of_outside:
  "\<forall>(i, z) \<in> set es. P i \<Longrightarrow> \<not> P j \<Longrightarrow> amp_of es j = 0"
  by (rule amp_of_notin) auto

lemma prob1_of_vanish:
  assumes "distinct (map fst es)" and "\<And>j. j AND tb \<noteq> 0 \<Longrightarrow> amp_of es j = 0"
  shows "prob1_of tb es = 0"
proof -
  have "(if fst e AND tb \<noteq> 0 then norm_sq (snd e) else 0) = 0" if "e \<in> set es" for e
  proof (cases e)
    case (Pair i z)
    then have "amp_of es i = z" using amp_of_distinct_mem [OF assms(1)] that by simp
    then show ?thesis using assms(2) [of i] Pair by (simp add: norm_sq_def)
  qed
  then have "(\<Sum>e\<leftarrow>es. if fst e AND tb \<noteq> 0 then norm_sq (snd e) else 0) = (\<Sum>e\<leftarrow>es. 0)"
    by (intro arg_cong [where f = sum_list] map_cong) simp_all
  then show ?thesis by (simp add: prob1_of_def)
qed

lemma prune_fields [simp]:
  "qubitMap (prune s) = qubitMap s" "noiseModel (prune s) = noiseModel s"
  "rng (prune s) = rng s" "draws (prune s) = draws s" "epsilon (prune s) = epsilon s"
  by (simp_all add: prune_def split: prod.split)

lemma prune_support:
  assumes "sparse_ok s" and "amp_of (entries s) j = 0"
  shows "amp_of (entries (prune s)) j = 0"
  using assms prune_entries(1) amp_of_filter_distinct
  by (simp add: sparse_ok_def prune_amp_def)

text \<open>
  The matrix path of \<open>applyGate\<close> never creates an amplitude where the matrix action is
  zero, and keeps the qubit map.
\<close>

lemma applyGate_support:
  assumes "sparse_ok s" and "qubitMap s q = Some k" and "k < 64" and "g \<noteq> Z"
    and "GATES g ps = Some mat"
  shows "\<exists>s'. applyGate g q ps s = Inr s' \<and> sparse_ok s' \<and> qubitMap s' = qubitMap s \<and>
     (\<forall>j. gate1 mat (2 ^ k) (amp_of (entries s)) j = 0 \<longrightarrow> amp_of (entries s') j = 0)"
proof -
  let ?s1 = "ensureCapacity (activeCount s * 2) s"
  let ?a = "scatter_all (apply1_entry mat (2 ^ k)) ?s1 (scatter_init ?s1)"
  let ?t = "prune (scatter_commit ?s1 ?a)"
  note f = apply1_scatter [OF assms(1,3)]
  have "applyGate g q ps s = Inr ?t"
    using assms(2,4,5) by (simp add: applyGate_def qubit_bit_def Let_def)
  moreover obtain thr where "sparse_ok ?t" "amp_of (entries ?t) = prune_amp thr (gate1 mat (2 ^ k) (amp_of (entries s)))"
    using scatter_prune [OF f(1,3,4) eq_imp_le [OF f(5)]] f(6) by auto
  moreover have "qubitMap ?t = qubitMap s"
    using ensureCapacity_buffers(5) assms(1)
    by (simp add: scatter_commit_def swapBuffers_def sparse_ok_def)
  ultimately show ?thesis by (auto simp: prune_amp_def)
qed

lemma gate_result_fields:
  "qubitMap (scatter_commit (ensureCapacity n s) a) = qubitMap s"
  "noiseModel (scatter_commit (ensureCapacity n s) a) = noiseModel s"
  "rng (scatter_commit (ensureCapacity n s) a) = rng s"
  "draws (scatter_commit (ensureCapacity n s) a) = draws s"
  "epsilon (scatter_commit (ensureCapacity n s) a) = epsilon s"
  by (simp_all add: scatter_commit_def swapBuffers_def ensureCapacity_def Let_def)

text \<open>Every catalog one-qubit gate, the \<open>Z\<close> fast path included, succeeds on a mapped qubit
  below 64 of a well-formed state and changes only the buffers.\<close>

lemma applyGate_ok:
  assumes ok: "sparse_ok s" and q: "qubitMap s q = Some k" and k: "k < 64"
    and m: "GATES g ps = Some mat"
  shows "\<exists>s'. applyGate g q ps s = Inr s' \<and> sparse_ok s' \<and> qubitMap s' = qubitMap s \<and>
     noiseModel s' = noiseModel s \<and> rng s' = rng s \<and> draws s' = draws s \<and> epsilon s' = epsilon s"
proof (cases "g = Z")
  case True
  let ?s1 = "ensureCapacity (activeCount s * 2) s"
  let ?a = "scatter_all (applyZ_entry (2 ^ k)) ?s1 (scatter_init ?s1)"
  note b = applyZ_scatter(1,2) [OF ok]
  note f = applyZ_scatter(3-6) [OF ok, where k = k]
  have "applyGate g q ps s = Inr (prune (scatter_commit ?s1 ?a))"
    using q True by (simp add: applyGate_def qubit_bit_def Let_def)
  with scatter_prune [OF b(1) f(1,2,3)] show ?thesis by (auto simp: gate_result_fields)
next
  case False
  let ?s1 = "ensureCapacity (activeCount s * 2) s"
  let ?a = "scatter_all (apply1_entry mat (2 ^ k)) ?s1 (scatter_init ?s1)"
  note f = apply1_scatter [OF ok k]
  have "applyGate g q ps s = Inr (prune (scatter_commit ?s1 ?a))"
    using q m False by (simp add: applyGate_def qubit_bit_def Let_def)
  with scatter_prune [OF f(1,3,4) eq_imp_le [OF f(5)]] show ?thesis by (auto simp: gate_result_fields)
qed

lemma amp_of_collapsed:
  "amp_of (map (apsnd (\<lambda>z. z / c)) (filter (outcome tb r) es)) j =
     (if outcome tb r (j, 0) then amp_of es j / c else 0)"
  by (induction es) (auto simp: outcome_def add_divide_distrib)

lemma exec_op_reset:
  assumes "measure_sim s q = Inr (r, s1)"
  shows "exec_op s (Instr RESET (QOne q) ps c b) =
     (if r = 1 then (case applyGate X q [] s1 of Inl e \<Rightarrow> Inl e | Inr s2 \<Rightarrow> Inr (prune s2))
      else Inr (prune s1))"
  using assms by (simp add: exec_op_def Let_def split: sum.split)

text \<open>
  One RESET on qubit \<open>q\<close> at bit \<open>k\<close>, without noise: afterwards every amplitude with bit
  \<open>k\<close> set is zero, and a set \<open>P\<close> of indices closed under flipping bit \<open>k\<close> on which the
  amplitudes were zero stays zero. Only the buffers and the draw counter change.
\<close>

lemma reset_step:
  assumes ok: "sparse_ok s" and nm: "noiseModel s = None" and q: "qubitMap s q = Some k"
    and k: "k < 64" and P: "\<And>j. P (j XOR 2 ^ k) = P j"
    and z: "\<And>j. P j \<Longrightarrow> amp_of (entries s) j = 0"
  shows "\<exists>s'. exec_op s (Instr RESET (QOne q) ps c b) = Inr s' \<and> sparse_ok s' \<and>
     qubitMap s' = qubitMap s \<and> noiseModel s' = None \<and> rng s' = rng s \<and>
     draws s' = Suc (draws s) \<and> epsilon s' = epsilon s \<and>
     (\<forall>j. P j \<or> bit j k \<longrightarrow> amp_of (entries s') j = 0)"
proof -
  define p where "p = prob1_of (2 ^ k) (entries s)"
  define r where "r = (if rng s (draws s) < p then 1 else 0 :: int)"
  define nrm where "nrm = (if r = 1 then sqrt p else sqrt (1 - p))"
  note me = measure_eq [OF ok q, unfolded nm option.case if_False, folded p_def, folded r_def,
    folded nrm_def]
  from me obtain s1 where m: "measure_sim s q = Inr (r, s1)" and ok1: "sparse_ok s1"
    and e1: "entries s1 = map (apsnd (\<lambda>z. z / of_real nrm)) (filter (outcome (2 ^ k) r) (entries s))"
    and s1: "s1 = s\<lparr>draws := Suc (draws s), indices := indices s1, amplitudes := amplitudes s1,
            activeCount := activeCount s1\<rparr>"
    by blast
  have f1: "qubitMap s1 = qubitMap s" "noiseModel s1 = None" "rng s1 = rng s"
    "draws s1 = Suc (draws s)" "epsilon s1 = epsilon s"
    using arg_cong [OF s1, of qubitMap] arg_cong [OF s1, of noiseModel] arg_cong [OF s1, of rng]
      arg_cong [OF s1, of draws] arg_cong [OF s1, of epsilon] nm by simp_all
  have bits: "\<forall>(i, z) \<in> set (entries s1). bit i k = (r = 1)"
    using outcome_entries [of "\<lambda>z. z / of_real nrm" "2 ^ k" r "entries s"]
    unfolding e1 [symmetric] by (simp add: and_exp_nonzero_iff)
  have z1: "amp_of (entries s1) j = 0" if "P j" for j
    using z [OF that] by (simp add: e1 amp_of_collapsed)
  show ?thesis
  proof (cases "r = 1")
    case False
    have "amp_of (entries s1) j = 0" if "P j \<or> bit j k" for j
      using that z1 amp_of_outside [OF bits, of j] False by auto
    then show ?thesis
      using exec_op_reset [OF m] False prune_sparse_ok [OF ok1] prune_support [OF ok1] f1 by simp
  next
    case True
    obtain s2 where a: "applyGate X q [] s1 = Inr s2" and ok2: "sparse_ok s2"
      and sup: "\<forall>j. gate1 X_mat (2 ^ k) (amp_of (entries s1)) j = 0 \<longrightarrow> amp_of (entries s2) j = 0"
      using applyGate_support [OF ok1 _ k, of q X "[]" X_mat] q f1(1) by auto
    have f2: "qubitMap s2 = qubitMap s1" "noiseModel s2 = noiseModel s1" "rng s2 = rng s1"
      "draws s2 = draws s1" "epsilon s2 = epsilon s1"
      using applyGate_ok [OF ok1 _ k, of q X "[]" X_mat] a q f1(1) by auto
    have "amp_of (entries s2) j = 0" if "P j \<or> bit j k" for j
    proof -
      have "P (j XOR 2 ^ k) \<or> \<not> bit (j XOR 2 ^ k) k" using that P [of j] by (auto simp: bit_simps)
      then have "amp_of (entries s1) (j XOR 2 ^ k) = 0"
        using z1 amp_of_outside [OF bits, of "j XOR 2 ^ k"] True by auto
      then show ?thesis using sup by (simp add: gate1_X)
    qed
    then show ?thesis
      using exec_op_reset [OF m] True a prune_sparse_ok [OF ok2] prune_support [OF ok2] f1 f2 by simp
  qed
qed

text \<open>
  C30. RESET, without a noise profile, on a well-formed sparse state, with a draw of
  \<open>Math.random()\<close> in \<open>[0, 1)\<close>, succeeds, leaves a well-formed sparse state, and leaves the
  qubit with probability exactly 0 of reading 1; so \<open>isZero\<close> holds for it and the
  manager can release it.
\<close>

theorem reset_clears_qubit:
  assumes ok: "sparse_ok s" and nm: "noiseModel s = None" and q: "qubitMap s q = Some k"
    and k: "k < 64" and u: "0 \<le> rng s (draws s)" "rng s (draws s) < 1"
  shows "\<exists>s'. exec_op s (Instr RESET (QOne q) ps c b) = Inr s' \<and> sparse_ok s' \<and>
     getProb1 s' q = Inr 0"
proof -
  obtain s' where r: "exec_op s (Instr RESET (QOne q) ps c b) = Inr s'" and ok': "sparse_ok s'"
    and q': "qubitMap s' = qubitMap s" and z: "\<forall>j. False \<or> bit j k \<longrightarrow> amp_of (entries s') j = 0"
    using reset_step [OF ok nm q k, where P = "\<lambda>_. False" and ps = ps and c = c and b = b] by auto
  have "prob1_of (2 ^ k) (entries s') = 0"
    using ok' z by (intro prob1_of_vanish) (auto simp: sparse_ok_def and_exp_nonzero_iff)
  then show ?thesis using r ok' getProb1_eq [of s' q k] q q' by simp
qed

theorem reset_clears_qubit_witness:
  "\<exists>s'. exec_op ((Simulator [0] None None (\<lambda>_. 0))\<lparr>indices := (indices (Simulator [0] None None (\<lambda>_. 0)))[0 := 1]\<rparr>)
       (Instr RESET (QOne 0) [] None None) = Inr s' \<and> sparse_ok s' \<and> getProb1 s' 0 = Inr 0"
proof -
  let ?s = "(Simulator [0] None None (\<lambda>_. 0))\<lparr>indices := (indices (Simulator [0] None None (\<lambda>_. 0)))[0 := 1]\<rparr>"
  have ok: "sparse_ok ?s"
    by (simp add: Simulator_def sparse_ok_def buffers_ok_def entries_def view_def u64_def)
  have c: "noiseModel ?s = None" "qubitMap ?s 0 = Some 0" "rng ?s (draws ?s) = 0"
    by (simp_all add: Simulator_def position_map_def)
  show ?thesis
    using reset_clears_qubit [OF ok c(1,2)] c(3) by simp
qed

end
