(* ===== verification/Test_Suite.thy ===== *)
theory Test_Suite
  imports Optimizer Transpiler Qubit_Manager
begin

text \<open>
  The deterministic cases of the repository's test suite (\<open>src/unnamed/part_001\<close>) on the
  pure parts, each as the boolean its \<open>expect\<close> checks, computed on the model. A handle
  \<open>Symbol("q1")\<close> is the qubit \<open>1\<close>, \<open>Symbol("q2")\<close> the qubit \<open>2\<close>; an operation written without
  \<open>params\<close> has the empty list, which the optimizer and the transpiler read as the code
  reads \<open>undefined\<close> there. \<open>toBeCloseTo(v)\<close> is \<open>|x - v| < 0.005\<close>, its default precision.
\<close>

section \<open>Optimizer (tests 9--20)\<close>

definition test9 :: bool where
  "test9 \<longleftrightarrow> length (Optimizer_prune [Instr X (QOne 1) [] None None, Instr X (QOne 1) [] None None]) = 0"

definition test10 :: bool where
  "test10 \<longleftrightarrow>
     (case Optimizer_prune [Instr RZ (QOne 1) [1 / 10] None None, Instr RZ (QOne 1) [2 / 10] None None] of
        res0 # _ \<Rightarrow> \<bar>hd (params res0) - 3 / 10\<bar> < 5 / 1000
      | [] \<Rightarrow> False)"

definition test11 :: bool where
  "test11 \<longleftrightarrow> length (Optimizer_prune [Instr RX (QOne 1) [pi] None None, Instr RX (QOne 1) [pi] None None]) = 0"

definition test12 :: bool where
  "test12 \<longleftrightarrow> length (Optimizer_prune [Instr Z (QOne 1) [] None None, Instr CNOT (QList [1, 2]) [] None None,
                                        Instr Z (QOne 1) [] None None]) = 1"

definition test13 :: bool where
  "test13 \<longleftrightarrow> length (Optimizer_prune [Instr X (QOne 2) [] None None, Instr CNOT (QList [1, 2]) [] None None,
                                        Instr X (QOne 2) [] None None]) = 1"

definition test14 :: bool where
  "test14 \<longleftrightarrow>
     (case Optimizer_prune [Instr S (QOne 1) [] None None, Instr S (QOne 1) [] None None] of
        res0 # _ \<Rightarrow> gate res0 = Z | [] \<Rightarrow> False)"

definition test15 :: bool where
  "test15 \<longleftrightarrow>
     (case Optimizer_prune [Instr T (QOne 1) [] None None, Instr T (QOne 1) [] None None] of
        res0 # _ \<Rightarrow> gate res0 = S | [] \<Rightarrow> False)"

definition test16 :: bool where
  "test16 \<longleftrightarrow> length (Optimizer_prune [Instr U3 (QOne 1) [0, 0, 0] None None]) = 0"

definition test17 :: bool where
  "test17 \<longleftrightarrow> length (Optimizer_prune [Instr RZ (QOne 1) [1 / 2] None None, Instr CZ (QList [1, 2]) [] None None,
                                        Instr RZ (QOne 1) [1 / 2] None None]) = 2"

definition test18 :: bool where
  "test18 \<longleftrightarrow> length (Optimizer_prune [Instr RX (QOne 1) [1 / 10] None None, Instr CNOT (QList [1, 2]) [] None None,
                                        Instr RX (QOne 1) [1 / 10] None None]) = 3"

definition test19 :: bool where
  "test19 \<longleftrightarrow> length (Optimizer_prune [Instr RZ (QOne 2) [1 / 10] None None, Instr CNOT (QList [1, 2]) [] None None,
                                        Instr RZ (QOne 2) [1 / 10] None None]) = 3"

definition test20 :: bool where
  "test20 \<longleftrightarrow> length (Optimizer_prune [Instr RY (QOne 1) [2 * pi] None None]) = 0"

section \<open>Transpiler (tests 21--28)\<close>

text \<open>\<open>res[i]\<close> of the transpiled list; a throw of \<open>transpile\<close> fails the test.\<close>

definition res_nth :: "error + instr list \<Rightarrow> nat \<Rightarrow> instr option" where
  "res_nth r i = (case r of Inr res \<Rightarrow> if i < length res then Some (res ! i) else None | Inl _ \<Rightarrow> None)"

definition test21 :: bool where
  "test21 \<longleftrightarrow> map_option gate (res_nth (transpile [Instr H (QOne 1) [] None None]) 0) = Some U3"

definition test22 :: bool where
  "test22 \<longleftrightarrow> map_option params (res_nth (transpile [Instr X (QOne 1) [] None None]) 0) = Some [pi, 0, pi]"

definition test23 :: bool where
  "test23 \<longleftrightarrow> map_option params (res_nth (transpile [Instr Y (QOne 1) [] None None]) 0) =
                 Some [pi, pi / 2, pi / 2]"

definition test24 :: bool where
  "test24 \<longleftrightarrow> map_option params (res_nth (transpile [Instr Z (QOne 1) [] None None]) 0) = Some [0, 0, pi]"

definition test25 :: bool where
  "test25 \<longleftrightarrow>
     (case transpile [Instr SWAP (QList [1, 2]) [] None None] of
        Inr res \<Rightarrow> length res = 3 \<and> list_all (\<lambda>op. gate op = CNOT) res
      | Inl _ \<Rightarrow> False)"

definition test26 :: bool where
  "test26 \<longleftrightarrow>
     map (\<lambda>i. map_option gate (res_nth (transpile [Instr CZ (QList [1, 2]) [] None None]) i)) [0, 1, 2] =
       [Some U3, Some CNOT, Some U3]"

definition test27 :: bool where
  "test27 \<longleftrightarrow>
     (case res_nth (transpile [Instr RX (QOne 1) [1 / 2] None None]) 0 of
        Some res0 \<Rightarrow> 1 < length (params res0) \<and> params res0 ! 1 = - pi / 2
      | None \<Rightarrow> False)"

definition test28 :: bool where
  "test28 \<longleftrightarrow> map_option gate (res_nth (transpile [Instr (Other ''GHOST'') (QOne 1) [] None None]) 0) =
                 Some (Other ''GHOST'')"

section \<open>QubitManager (tests 1--5) and Circuit (tests 6, 7)\<close>

text \<open>
  The mock simulators of tests 2 and 4 are simulators over the handle whose \<open>isZero\<close>
  answers as the mock does: a fresh one (state \<open>|0\<rangle>\<close>), and one in state \<open>|1\<rangle>\<close>.
\<close>

definition sim_one :: "qubit \<Rightarrow> sim" where
  "sim_one q = (Simulator [q] None None (\<lambda>_. 0))\<lparr>indices := (indices (Simulator [q] None None (\<lambda>_. 0)))[0 := 1]\<rparr>"

definition test1 :: bool where
  "test1 \<longleftrightarrow> card (set (fst (allocate_n 10 new_manager))) = 10"

definition test2 :: bool where
  "test2 \<longleftrightarrow>
     (let (q, m) = allocate new_manager
      in case release q (Simulator [q] None None (\<lambda>_. 0)) m of
           Inr m' \<Rightarrow> \<not> isAllocated q m'
         | Inl _ \<Rightarrow> False)"

definition test3 :: bool where
  "test3 \<longleftrightarrow> (let (q, m) = allocate new_manager in isAllocated q m)"

definition test4 :: bool where
  "test4 \<longleftrightarrow> (let (q, m) = allocate new_manager in release q (sim_one q) m = Inl (ReleaseError q))"

definition test5 :: bool where
  "test5 \<longleftrightarrow> \<not> isAllocated (nextSymbol new_manager) new_manager"

definition test6 :: bool where
  "test6 \<longleftrightarrow> length (getInstructions (addOp H (QOne 1) [] None None new_circuit)) = 1"

definition test7 :: bool where
  "test7 \<longleftrightarrow> length (getInstructions (clear (addOp X (QOne 1) [] None None new_circuit))) = 0"

lemmas opt_eval = Optimizer_prune_def opt_step_def findCommutingPartner_def push_op_def
  canCommute_def selfInverses_def removeFromWires_def COMMUTATION_RULES_def mergeGates_def
  set_gate_def set_param0_def

lemma js_rem_self: "0 < y \<Longrightarrow> js_rem y y = 0"
  by (simp add: js_rem_def)

lemma isIdentity_small:
  assumes "g \<in> set [RX, RY, RZ]" and "1 / 100 \<le> a" and "a \<le> 1"
  shows "\<not> isIdentity (Instr g q [a] c b)"
proof -
  have "a < 2 * pi" using assms(3) pi_ge_two by linarith
  then have "js_rem a (2 * pi) = a" using assms(2) by (simp add: js_rem_below)
  moreover have "(1::real) / 10 ^ 10 < 1 / 100" by simp
  moreover have "(1::real) / 10 ^ 10 < 1" by simp
  moreover have "1 < 2 * pi - 1 / 10 ^ 10" using pi_ge_two \<open>(1::real) / 10 ^ 10 < 1\<close> by linarith
  ultimately show ?thesis using assms by (auto simp: isIdentity_def EPSILON_def)
qed

lemma js_rem_test_angles:
  "js_rem (3 / 10) (2 * pi) = 3 / 10" "js_rem 1 (2 * pi) = 1"
  "js_rem (pi + pi) (2 * pi) = 0" "js_rem (2 * pi) (2 * pi) = 0" "js_rem 0 (2 * pi) = 0"
proof -
  have "3 / 10 < 2 * pi" "1 < 2 * pi" using pi_ge_two by linarith+
  then show "js_rem (3 / 10) (2 * pi) = 3 / 10" "js_rem 1 (2 * pi) = 1"
    by (simp_all add: js_rem_below)
  show "js_rem (pi + pi) (2 * pi) = 0" "js_rem (2 * pi) (2 * pi) = 0" "js_rem 0 (2 * pi) = 0"
    by (simp_all add: js_rem_def)
qed

lemma isIdentity_zero_angle:
  "g \<in> set [RX, RY, RZ] \<Longrightarrow> isIdentity (Instr g q [0] c b)"
  "isIdentity (Instr U3 q [0, 0, 0] c b)" "isIdentity (Instr RY q [2 * pi] c b)"
  by (auto simp: isIdentity_def EPSILON_def js_rem_test_angles)

lemma isIdentity_no_params: "\<not> isIdentity (Instr g q [] c b)"
  by (simp add: isIdentity_def)

lemma js_rem_pi: "js_rem pi (2 * pi) = pi"
  using pi_gt_zero by (simp add: js_rem_below)

lemma isIdentity_pi: "\<not> isIdentity (Instr RX q [pi] c b)"
proof -
  note js_rem_pi
  moreover have "(1::real) / 10 ^ 10 < 1" by simp
  ultimately show ?thesis using pi_ge_two by (auto simp: isIdentity_def EPSILON_def)
qed

lemma optimizer_tests_a: "test9" "test12" "test13" "test14" "test15"
  unfolding test9_def test12_def test13_def test14_def test15_def
  by (simp_all add: opt_eval isIdentity_def)

lemma optimizer_tests_b: "test10" "test17" "test18" "test19"
  unfolding test10_def test17_def test18_def test19_def
  by (simp_all add: opt_eval Let_def isIdentity_no_params isIdentity_small js_rem_test_angles)

lemma optimizer_tests_c: "test11" "test16" "test20"
  unfolding test11_def test16_def test20_def
  by (simp_all add: opt_eval Let_def isIdentity_no_params isIdentity_pi isIdentity_zero_angle
      js_rem_test_angles)

lemma transpiler_tests: "test21" "test22" "test23" "test24" "test25" "test26" "test27" "test28"
  unfolding test21_def test22_def test23_def test24_def test25_def test26_def test27_def test28_def
  by (simp_all add: res_nth_def decompose_def)

lemma sim_fresh_isZero: "isZero (Simulator [q] None None r) q = Inr True"
proof -
  have "qubitMap (Simulator [q] None None r) q = Some 0" by (simp add: Simulator_def position_map_def)
  moreover have "0 < getEffectiveEpsilon (Simulator [q] None None r)"
    by (simp add: getEffectiveEpsilon_def Simulator_def prune_threshold_def prune_base_def)
  ultimately show ?thesis by (simp add: isZero_eq Simulator_entries prob1_of_def)
qed

lemma sim_one_isZero: "isZero (sim_one q) q = Inr False"
proof -
  have "qubitMap (sim_one q) q = Some 0" by (simp add: sim_one_def Simulator_def position_map_def)
  moreover have "entries (sim_one q) = [(1, 1)]"
    by (simp add: sim_one_def Simulator_def entries_def view_def slot_amp_def one_complex.code)
  moreover have "getEffectiveEpsilon (sim_one q) < 1"
    by (simp add: sim_one_def getEffectiveEpsilon_def Simulator_def prune_threshold_def prune_base_def)
  ultimately show ?thesis by (simp add: isZero_eq prob1_of_def norm_sq_def)
qed

lemma manager_tests: "test1" "test2" "test3" "test4" "test5" "test6" "test7"
  unfolding test1_def test2_def test3_def test4_def test5_def test6_def test7_def
  by (simp_all add: allocate_def new_manager_def release_def isAllocated_def sim_fresh_isZero
      sim_one_isZero getInstructions_def addOp_def clear_def new_circuit_def numeral_eq_Suc)




end
