(* ===== verification/Scope_Safety.thy ===== *)
theory Scope_Safety
  imports Algorithms Simulator_Reset Optimizer_Semantics
begin

text \<open>
  Scope safety of \<open>Q.use\<close> (\<open>src/src/index.js\<close>) measured against the spec's invariant
  ``a callback that ends without resetting some allocated qubit makes the scope end with
  a ReleaseError''. The release check is on the state, not on the calls: a handle that
  is in \<open>|0\<rangle>\<close> releases whether or not it was reset.
\<close>

text \<open>The one-qubit gate nodes on handles of \<open>Q\<close> that \<open>run\<close> applies through \<open>applyGate\<close>.\<close>

definition gate1_node :: "qubit set \<Rightarrow> instr \<Rightarrow> bool" where
  "gate1_node Q op =
     (case qubit op of
        QOne q \<Rightarrow> q \<in> Q \<and> gate op \<in> set [H, X, Y, Z, S, T, RX, RY, RZ, U3] \<and> GATES (gate op) (params op) \<noteq> None
      | _ \<Rightarrow> False)"

text \<open>The recorder calls of one-qubit gates.\<close>

fun gate1_call :: "call \<Rightarrow> bool" where
  "gate1_call (Ccnot _ _) = False" | "gate1_call (Ccz _ _) = False" | "gate1_call (Crzz _ _ _) = False"
| "gate1_call (Cswap _ _) = False" | "gate1_call (Cccx _ _ _) = False" | "gate1_call (Creset _) = False"
| "gate1_call _ = True"

abbreviation reset_node :: "qubit \<Rightarrow> instr" where
  "reset_node q \<equiv> Instr RESET (QOne q) [] None None"

section \<open>The compiled circuit of gates followed by resets\<close>

lemma opt_step_reset: "opt_step (reset_node q) st = push_op (reset_node q) st"
  by (simp add: opt_step_def isIdentity_def Let_def selfInverses_def split: option.split)

lemma fold_opt_step_resets:
  "optimized (fold opt_step (map reset_node qs) st) = optimized st @ map (Some \<circ> reset_node) qs"
  by (induction qs arbitrary: st) (simp_all add: opt_step_reset push_op_def)

lemma Optimizer_prune_resets:
  "Optimizer_prune (G @ map reset_node qs) = Optimizer_prune G @ map reset_node qs"
proof -
  have "List.map_filter id (map (Some \<circ> reset_node) qs) = map reset_node qs"
    by (induction qs) (simp_all add: map_filter_simps)
  then show ?thesis
    by (simp add: Optimizer_prune_def Let_def fold_opt_step_resets isIdentity_def comp_def)
qed

lemma transpile_append:
  "transpile (xs @ ys) =
     (case transpile xs of Inl e \<Rightarrow> Inl e | Inr a \<Rightarrow> (case transpile ys of Inl e \<Rightarrow> Inl e | Inr b \<Rightarrow> Inr (a @ b)))"
  by (induction xs) (auto split: sum.split)

lemma transpile_resets: "transpile (map reset_node qs) = Inr (map reset_node qs)"
  by (induction qs) (simp_all add: decompose_def)

lemma transpile_gate1:
  assumes "list_all (gate1_node Q) G"
  shows "\<exists>T. transpile G = Inr T \<and> list_all (gate1_node Q) T"
  using assms
proof (induction G)
  case Nil
  then show ?case by simp
next
  case (Cons op G)
  then obtain q where q: "qubit op = QOne q" "q \<in> Q" and g: "gate op \<in> set [H, X, Y, Z, S, T, RX, RY, RZ, U3]"
    and m: "GATES (gate op) (params op) \<noteq> None"
    by (auto simp: gate1_node_def split: qref.splits)
  have "\<exists>d. decompose op = Inr d \<and> list_all (gate1_node Q) d"
    using q g m by (auto simp: decompose_def gate1_node_def split: list.splits)
  then show ?case using Cons by auto
qed

lemma opt_step_gate1:
  assumes ok: "wire_ok st" and live: "list_all (gate1_node Q) (List.map_filter id (optimized st))"
    and op: "gate1_node Q op"
  shows "list_all (gate1_node Q) (List.map_filter id (optimized (opt_step op st)))"
proof (cases "findCommutingPartner op (wireMap st) (optimized st)")
  case None
  then show ?thesis using live op by (simp add: opt_step_def push_op_def map_filter_simps)
next
  case (Some p)
  obtain c where p: "p < length (optimized st)" and c: "optimized st ! p = Some c"
    and gc: "gate c = gate op" and qc: "areQubitsEqual (qubit c) (qubit op)"
    using findCommutingPartner_Some [OF ok Some] by blast
  have split: "List.map_filter id ((optimized st)[p := v]) =
      List.map_filter id (take p (optimized st)) @ List.map_filter id [v] @
      List.map_filter id (drop (Suc p) (optimized st))" for v
    by (rule map_filter_split(2) [OF c p])
  have "List.map_filter id (optimized st) =
      List.map_filter id (take p (optimized st)) @ c # List.map_filter id (drop (Suc p) (optimized st))"
    by (rule map_filter_split(1) [OF c p])
  then have parts: "list_all (gate1_node Q) (List.map_filter id (take p (optimized st)))"
    "gate1_node Q c" "list_all (gate1_node Q) (List.map_filter id (drop (Suc p) (optimized st)))"
    using live by simp_all
  have upd: "list_all (gate1_node Q) (List.map_filter id ((optimized st)[p := v]))"
    if "case v of None \<Rightarrow> True | Some c' \<Rightarrow> gate1_node Q c'" for v
    using that parts by (simp add: split map_filter_simps split: option.splits)
  have merged: "gate1_node Q (set_param0 a c)" if "gate op \<in> set [RX, RY, RZ]" for a
    using parts(2) that gc by (auto simp: gate1_node_def set_param0_def split: list.splits qref.splits)
  have renamed: "gate1_node Q (set_gate g c)" if "g \<in> set [Z, S]" for g
    using parts(2) that by (auto simp: gate1_node_def set_gate_def split: qref.splits)
  have push: "list_all (gate1_node Q) (List.map_filter id (optimized (push_op op st)))"
    using live op by (simp add: push_op_def map_filter_simps)
  consider (ident) "isIdentity op"
    | (rot) "\<not> isIdentity op" "gate op \<in> set [RX, RY, RZ]"
    | (ss) "\<not> isIdentity op" "gate op \<notin> set [RX, RY, RZ]" "gate op = S"
    | (tt) "\<not> isIdentity op" "gate op \<notin> set [RX, RY, RZ]" "gate op = T"
    | (rest) "\<not> isIdentity op" "gate op \<notin> set [RX, RY, RZ]" "gate op \<noteq> S" "gate op \<noteq> T"
    by blast
  then show ?thesis
  proof cases
    case ident
    then show ?thesis using live by (simp add: opt_step_def)
  next
    case rot
    have m: "opt_step op st = mergeGates p op st" using rot Some by (simp add: opt_step_def)
    have "list_all (gate1_node Q) (List.map_filter id (optimized (mergeGates p op st)))"
      using c rot(2) upd [of "Some (set_param0 _ c)"] merged [OF rot(2)] upd [of None]
      by (simp add: mergeGates_def Let_def)
    then show ?thesis by (simp only: m)
  next
    case ss
    then have "opt_step op st = st\<lparr>optimized := (optimized st)[p := Some (set_gate Z c)]\<rparr>"
      using Some c gc by (simp add: opt_step_def Let_def)
    then show ?thesis using upd [of "Some (set_gate Z c)"] renamed [of Z] by simp
  next
    case tt
    then have "opt_step op st = st\<lparr>optimized := (optimized st)[p := Some (set_gate S c)]\<rparr>"
      using Some c gc by (simp add: opt_step_def Let_def)
    then show ?thesis using upd [of "Some (set_gate S c)"] renamed [of S] by simp
  next
    case rest
    then have "opt_step op st = push_op op st \<or>
        opt_step op st = st\<lparr>wireMap := removeFromWires p c (wireMap st), optimized := (optimized st)[p := None]\<rparr>"
      using Some c gc by (simp add: opt_step_def Let_def)
    then show ?thesis using push upd [of None] by auto
  qed
qed

lemma Optimizer_prune_gate1:
  assumes "list_all (gate1_node Q) G"
  shows "list_all (gate1_node Q) (Optimizer_prune G)"
proof -
  have "wire_ok (fold opt_step G st) \<and> list_all (gate1_node Q) (List.map_filter id (optimized (fold opt_step G st)))"
    if "wire_ok st" "list_all (gate1_node Q) (List.map_filter id (optimized st))" for st
    using assms that
  proof (induction G arbitrary: st)
    case Nil
    then show ?case by simp
  next
    case (Cons op G)
    have o: "gate1_node Q op" and g: "list_all (gate1_node Q) G" using Cons.prems(1) by simp_all
    have "wire_ok (opt_step op st)" by (rule opt_step_wire_ok [OF Cons.prems(2)])
    moreover have "list_all (gate1_node Q) (List.map_filter id (optimized (opt_step op st)))"
      by (rule opt_step_gate1 [OF Cons.prems(2,3) o])
    ultimately show ?case using Cons.IH [OF g] unfolding id_def by simp
  qed
  from this [OF wire_ok_init] show ?thesis
    by (simp add: Optimizer_prune_def Let_def list_all_iff)
qed

lemma compile_gates_resets:
  assumes "list_all (gate1_node Q) G"
  shows "\<exists>C. compile (G @ map reset_node qs) = Inr (C @ map reset_node qs) \<and> list_all (gate1_node Q) C"
proof -
  obtain T where t: "transpile (Optimizer_prune G) = Inr T" and lt: "list_all (gate1_node Q) T"
    using transpile_gate1 [OF Optimizer_prune_gate1 [OF assms]] by blast
  show ?thesis
    using t Optimizer_prune_gate1 [OF lt]
    by (simp add: compile_def Optimizer_prune_resets transpile_append transpile_resets)
qed

section \<open>Running the compiled circuit\<close>

lemma run_gate1:
  assumes "sparse_ok s" and "noiseModel s = None"
    and "\<And>q. q \<in> Q \<Longrightarrow> \<exists>k. qubitMap s q = Some k \<and> k < 64"
    and "list_all (gate1_node Q) G"
  shows "\<exists>s'. run s (G @ rest) = run s' rest \<and> sparse_ok s' \<and> qubitMap s' = qubitMap s \<and>
     noiseModel s' = None \<and> epsilon s' = epsilon s"
  using assms
proof (induction G arbitrary: s)
  case Nil
  then show ?case by auto
next
  case (Cons op G)
  obtain q where q: "qubit op = QOne q" "q \<in> Q" and g: "gate op \<in> set [H, X, Y, Z, S, T, RX, RY, RZ, U3]"
    and m: "GATES (gate op) (params op) \<noteq> None"
    using Cons.prems(4) by (auto simp: gate1_node_def split: qref.splits)
  obtain k where k: "qubitMap s q = Some k" "k < 64" using Cons.prems(3) [OF q(2)] by blast
  obtain mat where mat: "GATES (gate op) (params op) = Some mat" using m by blast
  obtain s1 where a: "applyGate (gate op) q (params op) s = Inr s1" and ok1: "sparse_ok s1"
    and f1: "qubitMap s1 = qubitMap s" "noiseModel s1 = noiseModel s" "epsilon s1 = epsilon s"
    using applyGate_ok [OF Cons.prems(1) k mat] by blast
  have "exec_op s op = Inr s1"
    using a q g f1(2) Cons.prems(2) by (auto simp: exec_op_def Let_def)
  moreover have "gate op \<noteq> IF" "gate op \<noteq> WHILE" using g by auto
  ultimately have "run s ((op # G) @ rest) = run s1 (G @ rest)" by (simp add: run_cons_step)
  moreover have "\<exists>s'. run s1 (G @ rest) = run s' rest \<and> sparse_ok s' \<and> qubitMap s' = qubitMap s1 \<and>
      noiseModel s' = None \<and> epsilon s' = epsilon s1"
    using Cons.IH [OF ok1] Cons.prems(2-4) f1 by simp
  ultimately show ?case using f1 by auto
qed

lemma run_resets:
  assumes "sparse_ok s" and "noiseModel s = None" and "distinct R"
    and "\<And>q. q \<in> set R \<Longrightarrow> qubitMap s q = Some (kf q) \<and> kf q < 64" and "inj_on kf (set R)"
    and "\<And>j q. q \<in> set R \<Longrightarrow> P (j XOR 2 ^ kf q) = P j"
    and "\<And>j. P j \<Longrightarrow> amp_of (entries s) j = 0"
  shows "\<exists>s'. run s (map reset_node R) = Some (Inr s') \<and> sparse_ok s' \<and> qubitMap s' = qubitMap s \<and>
     epsilon s' = epsilon s \<and> (\<forall>j. P j \<or> (\<exists>q\<in>set R. bit j (kf q)) \<longrightarrow> amp_of (entries s') j = 0)"
  using assms
proof (induction R arbitrary: s P)
  case Nil
  then show ?case by (simp add: run_Nil)
next
  case (Cons q R)
  have pq: "qubitMap s q = Some (kf q)" "kf q < 64" using Cons.prems(4) by simp_all
  obtain s1 where r: "exec_op s (reset_node q) = Inr s1" and ok1: "sparse_ok s1"
    and f1: "qubitMap s1 = qubitMap s" "noiseModel s1 = None" "epsilon s1 = epsilon s"
    and z1: "\<forall>j. P j \<or> bit j (kf q) \<longrightarrow> amp_of (entries s1) j = 0"
    using reset_step [OF Cons.prems(1,2) pq, of P "[]" None None] Cons.prems(6,7) by auto
  define P' where "P' = (\<lambda>j. P j \<or> bit j (kf q))"
  have ne: "kf q' \<noteq> kf q" if "q' \<in> set R" for q'
  proof
    assume "kf q' = kf q"
    then have "q' = q" using inj_onD [OF Cons.prems(5)] that by simp
    then show False using Cons.prems(3) that by simp
  qed
  have "P' (j XOR 2 ^ kf q') = P' j" if "q' \<in> set R" for j q'
    using Cons.prems(6) [of q' j] ne [OF that] that by (auto simp: P'_def bit_simps)
  then obtain s' where run': "run s1 (map reset_node R) = Some (Inr s')" and ok': "sparse_ok s'"
    and f': "qubitMap s' = qubitMap s1" "epsilon s' = epsilon s1"
    and z': "\<forall>j. P' j \<or> (\<exists>q\<in>set R. bit j (kf q)) \<longrightarrow> amp_of (entries s') j = 0"
    using Cons.IH [OF ok1 f1(2), of P'] Cons.prems(3-5) f1(1) z1 by (auto simp: P'_def inj_on_insert)
  have "run s (map reset_node (q # R)) = Some (Inr s')"
    using r run' by (simp add: run_cons_step)
  then show ?case using ok' f' f1 z' by (auto simp: P'_def)
qed

lemma Simulator_isZero:
  assumes "distinct qs" and "q \<in> set qs"
  shows "isZero (Simulator qs nm None r) q = Inr True"
proof -
  obtain i where i: "i < length qs" "qs ! i = q" using assms(2) by (auto simp: in_set_conv_nth)
  then have "qubitMap (Simulator qs nm None r) q = Some i"
    using position_map_Some [OF assms(1)] by (simp add: Simulator_def)
  moreover have "0 < getEffectiveEpsilon (Simulator qs nm None r)"
    by (simp add: getEffectiveEpsilon_def Simulator_def prune_threshold_def prune_base_def)
  ultimately show ?thesis by (simp add: isZero_eq Simulator_entries prob1_of_def)
qed

lemma fresh_registry:
  assumes "manager_ok m" and "allocate_n n m = (qs, m1)"
  shows "registry m1 - set qs = registry m"
proof -
  note p = allocate_n_props [OF assms]
  have "q \<notin> set qs" if "q \<in> registry m" for q
    using that p assms(1) unfolding manager_ok_def by fastforce
  then show ?thesis using p by blast
qed

lemma gate1_call_node:
  "gate1_call c \<Longrightarrow> set (call_qubits c) \<subseteq> Q \<Longrightarrow> gate1_node Q (call_instr c)"
  by (cases c) (simp_all add: gate1_node_def)

lemma Simulator_positions:
  assumes "distinct qs" and "length qs \<le> 64"
  defines "kf \<equiv> \<lambda>q. the (position_map qs q)"
  shows "\<And>q. q \<in> set qs \<Longrightarrow> position_map qs q = Some (kf q) \<and> kf q < 64"
    and "inj_on kf (set qs)"
proof -
  have pm: "position_map qs q = Some (kf q) \<and> kf q < length qs \<and> qs ! kf q = q" if "q \<in> set qs" for q
  proof -
    from that obtain i where i: "i < length qs" "qs ! i = q" by (meson in_set_conv_nth)
    then have "position_map qs q = Some i" using position_map_Some [OF assms(1)] by simp
    then show ?thesis using i by (simp add: kf_def)
  qed
  show "position_map qs q = Some (kf q) \<and> kf q < 64" if "q \<in> set qs" for q
    using pm [OF that] assms(2) by simp
  show "inj_on kf (set qs)" by (rule inj_onI) (metis pm)
qed

lemma isZero_cleared:
  assumes "sparse_ok s" and "qubitMap s q = Some k" and "epsilon s = None"
    and "\<And>j. bit j k \<Longrightarrow> amp_of (entries s) j = 0"
  shows "isZero s q = Inr True"
proof -
  have "prob1_of (2 ^ k) (entries s) = 0"
    using assms(1,4) by (intro prob1_of_vanish) (auto simp: sparse_ok_def and_exp_nonzero_iff)
  moreover have "0 < getEffectiveEpsilon s"
    using assms(1,3) by (simp add: getEffectiveEpsilon_def prune_threshold_def prune_base_def
        sparse_ok_def buffers_ok_def)
  ultimately show ?thesis using assms(2) by (simp add: isZero_eq)
qed

text \<open>
  C36. A scope whose callback does nothing ends without error and gives the manager back
  its registry: the handles it allocated are in \<open>|0\<rangle>\<close>, so they release although the
  callback never reset them. The spec's ``scope safety'' invariant, read literally,
  requires a ReleaseError here.
\<close>

theorem use_scope_idle:
  assumes "manager_ok m"
  shows "use_scope n (\<lambda>qs. Done) noise r m =
           Some (None, (snd (allocate_n n m))\<lparr>registry := registry m\<rparr>)"
proof -
  obtain qs m1 where a: "allocate_n n m = (qs, m1)" by (cases "allocate_n n m")
  note p = allocate_n_props [OF assms a]
  define sc0 where "sc0 = \<lparr>mgr = m1, ssim = Simulator qs noise None r, outer = new_circuit, observed = []\<rparr>"
  have f: "flush None sc0 = Some (Inr None, sc0)" by (simp add: flush_empty sc0_def new_circuit_def)
  have "\<forall>q\<in>set qs. isZero (ssim sc0) q = Inr True" using p by (simp add: sc0_def Simulator_isZero)
  then have "release_all (qs @ []) (ssim sc0) m1 = (None, m1\<lparr>registry := registry m1 - set qs\<rparr>)"
    by (simp only: release_all_zero_prefix) simp
  then have "use_scope n (\<lambda>qs. Done) noise r m = Some (None, m1\<lparr>registry := registry m1 - set qs\<rparr>)"
    using a f by (simp add: use_scope_def finish_def sc0_def)
  then show ?thesis using fresh_registry [OF assms a] a by simp
qed

theorem use_scope_idle_witness:
  "manager_ok new_manager \<and>
   use_scope 2 (\<lambda>qs. Done) None (\<lambda>_. 0) new_manager = Some (None, \<lparr>registry = {}, nextSymbol = 2\<rparr>)"
proof -
  have ok: "manager_ok new_manager" by (rule new_manager_ok)
  have "snd (allocate_n 2 new_manager) = \<lparr>registry = {0, 1}, nextSymbol = 2\<rparr>"
    by (simp add: allocate_def new_manager_def numeral_eq_Suc insert_commute)
  then show ?thesis using use_scope_idle [OF ok, of 2 None "\<lambda>_. 0"] ok
    by (simp add: new_manager_def)
qed

text \<open>
  C37. A scope whose callback makes one-qubit gate calls on its own handles and then
  resets every handle ends without error and gives the manager back its registry, for
  every sequence of \<open>Math.random()\<close> draws in \<open>[0, 1)\<close>: the recorded circuit compiles to
  one-qubit gates followed by the resets, the simulator runs it, each RESET clears its
  qubit and keeps the earlier ones clear, and every release then finds its qubit in
  \<open>|0\<rangle>\<close>. This is the composition of recorder, compiler, simulator and manager.
\<close>

theorem use_scope_reset_all:
  assumes m: "manager_ok m" and n: "n \<le> 64" and u: "\<forall>i. 0 \<le> r i \<and> r i < 1"
    and gs: "\<And>qs. length qs = n \<Longrightarrow> list_all (\<lambda>c. gate1_call c \<and> set (call_qubits c) \<subseteq> set qs) (gs qs)"
  shows "use_scope n (\<lambda>qs. calls (gs qs @ map Creset qs) Done) None r m =
           Some (None, (snd (allocate_n n m))\<lparr>registry := registry m\<rparr>)"
proof -
  obtain qs m1 where a: "allocate_n n m = (qs, m1)" by (cases "allocate_n n m")
  note p = allocate_n_props [OF m a]
  define s0 where "s0 = Simulator qs None None r"
  define sc0 where "sc0 = \<lparr>mgr = m1, ssim = s0, outer = new_circuit, observed = []\<rparr>"
  let ?cs = "gs qs @ map Creset qs"
  have g: "list_all (\<lambda>c. gate1_call c \<and> set (call_qubits c) \<subseteq> set qs) (gs qs)" using gs p by blast
  have "list_all (call_ok m1) ?cs"
  proof -
    have "call_ok m1 c" if "gate1_call c" "set (call_qubits c) \<subseteq> set qs" for c
      using that p by (cases c) (auto simp: call_ok_def isAllocated_def)
    moreover have "call_ok m1 (Creset q)" if "q \<in> set qs" for q
      using that p by (simp add: call_ok_def isAllocated_def)
    ultimately show ?thesis using g by (auto simp: list_all_iff)
  qed
  then have ex: "exec (calls ?cs Done) None sc0 =
      Some (None, None, sc0\<lparr>outer := \<lparr>ops = map call_instr (gs qs) @ map reset_node qs\<rparr>\<rparr>)"
    by (simp add: exec_calls sc0_def new_circuit_def comp_def)
  have gn: "list_all (gate1_node (set qs)) (map call_instr (gs qs))"
    using g by (auto simp: list_all_iff intro: gate1_call_node)
  obtain C where c: "compile (map call_instr (gs qs) @ map reset_node qs) = Inr (C @ map reset_node qs)"
    and gc: "list_all (gate1_node (set qs)) C"
    using compile_gates_resets [OF gn] by blast
  have len: "length qs \<le> 64" using p n by simp
  note pos = Simulator_positions [OF conjunct1 [OF conjunct2 [OF p]] len]
  have q0: "qubitMap s0 q = Some (the (position_map qs q)) \<and> the (position_map qs q) < 64"
    if "q \<in> set qs" for q
    using pos(1) [OF that] by (simp add: s0_def Simulator_def)
  have ok0: "sparse_ok s0" by (simp add: s0_def Simulator_sparse_ok)
  have nm0: "noiseModel s0 = None" and e0: "epsilon s0 = None" by (simp_all add: s0_def Simulator_def)
  obtain s1 where r1: "run s0 (C @ map reset_node qs) = run s1 (map reset_node qs)" and ok1: "sparse_ok s1"
    and f1: "qubitMap s1 = qubitMap s0" "noiseModel s1 = None" "epsilon s1 = epsilon s0"
    using run_gate1 [OF ok0 nm0 _ gc, of "map reset_node qs"] q0 by blast
  obtain s2 where r2: "run s1 (map reset_node qs) = Some (Inr s2)" and ok2: "sparse_ok s2"
    and f2: "qubitMap s2 = qubitMap s1" "epsilon s2 = epsilon s1"
    and z2: "\<forall>j. False \<or> (\<exists>q\<in>set qs. bit j (the (position_map qs q))) \<longrightarrow> amp_of (entries s2) j = 0"
    using run_resets [OF ok1 f1(2) conjunct1 [OF conjunct2 [OF p]] _ pos(2), of "\<lambda>_. False"] q0 f1(1)
    by auto
  have "isZero s2 q = Inr True" if "q \<in> set qs" for q
  proof (rule isZero_cleared [OF ok2])
    show "qubitMap s2 q = Some (the (position_map qs q))" using q0 [OF that] f1 f2 by simp
    show "epsilon s2 = None" using f1 f2 e0 by simp
    show "\<And>j. bit j (the (position_map qs q)) \<Longrightarrow> amp_of (entries s2) j = 0" using z2 that by blast
  qed
  then have "\<forall>q\<in>set qs. isZero s2 q = Inr True" by blast
  then have rel: "release_all (qs @ []) s2 m1 = (None, m1\<lparr>registry := registry m1 - set qs\<rparr>)"
    by (simp only: release_all_zero_prefix) simp
  have "use_scope n (\<lambda>qs. calls (gs qs @ map Creset qs) Done) None r m =
          Some (None, m1\<lparr>registry := registry m1 - set qs\<rparr>)"
    using a ex c r1 r2 rel by (simp add: use_scope_def finish_def flush_def getInstructions_def sc0_def s0_def)
  then show ?thesis using fresh_registry [OF m a] a by simp
qed

theorem use_scope_reset_all_witness:
  "use_scope 1 (\<lambda>qs. calls ([Ch (hd qs), Cs (hd qs)] @ map Creset qs) Done) None (\<lambda>_. 0) new_manager =
     Some (None, \<lparr>registry = {}, nextSymbol = 1\<rparr>)"
proof -
  have "list_all (\<lambda>c. gate1_call c \<and> set (call_qubits c) \<subseteq> set qs) [Ch (hd qs), Cs (hd qs)]"
    if "length qs = 1" for qs :: "qubit list"
    using that by (cases qs) simp_all
  moreover have "snd (allocate_n 1 new_manager) = \<lparr>registry = {0}, nextSymbol = 1\<rparr>"
    by (simp add: allocate_def new_manager_def)
  ultimately show ?thesis
    using use_scope_reset_all [OF new_manager_ok, of 1 "\<lambda>_. 0" "\<lambda>qs. [Ch (hd qs), Cs (hd qs)]"]
    by (simp add: new_manager_def)
qed

end
