(* ===== verification/Basis_States.thy ===== *)
theory Basis_States
  imports Simulator_FastPaths Simulator_Reset Test_Suite
begin

text \<open>
  Circuits on basis states. A gate whose matrix maps the basis vector of column \<open>c\<close> to a
  single basis vector (one entry of modulus 1 in the column) moves a basis state to a
  basis state: X, Y, Z, S, T, CNOT, CZ, SWAP, CCX, and U3 or RZ with angles that make the
  column a unit vector. On such circuits the state is a single index and a phase, and
  measurement is deterministic. \<open>cl_run\<close> is this classical reading of an instruction
  list, the reference the simulator's \<open>run\<close> is proved to implement on single-entry states.
\<close>

section \<open>The classical semantics\<close>

text \<open>A simulator state holding the single basis index \<open>j\<close> with an amplitude of modulus 1.\<close>

definition cls :: "sim \<Rightarrow> int \<Rightarrow> bool" where
  "cls s j \<longleftrightarrow> sparse_ok s \<and> (\<exists>z. entries s = [(j, z)] \<and> norm_sq z = 1)"

text \<open>The row of the unique non-zero entry of column \<open>c\<close>, when that entry has modulus 1.\<close>

definition col_row :: "real list \<Rightarrow> nat \<Rightarrow> nat \<Rightarrow> nat option" where
  "col_row m n c =
     (case filter (\<lambda>r. mat_entry m n r c \<noteq> 0) [0..<n] of
        [r] \<Rightarrow> if norm_sq (mat_entry m n r c) = 1 then Some r else None
      | _ \<Rightarrow> None)"

text \<open>The bit positions of an instruction's qubits, in the order the simulator reads them.\<close>

fun positions :: "(qubit \<rightharpoonup> nat) \<Rightarrow> qref \<Rightarrow> nat list option" where
  "positions pos (QOne q) = map_option (\<lambda>k. [k]) (pos q)"
| "positions pos (QList qs) = (if length qs = 2 \<or> length qs = 3 then those (map pos qs) else None)"
| "positions pos QNull = None"

text \<open>The index a gate node sends basis index \<open>j\<close> to, if it is a classical gate there.\<close>

definition cl_gate :: "(qubit \<rightharpoonup> nat) \<Rightarrow> instr \<Rightarrow> int \<Rightarrow> int option" where
  "cl_gate pos op j =
     (case positions pos (qubit op) of
        None \<Rightarrow> None
      | Some ks \<Rightarrow>
          (if distinct ks \<and> list_all (\<lambda>k. k < 64) ks then
             (case GATES (gate op) (params op) of
                None \<Rightarrow> None
              | Some m \<Rightarrow>
                  (if length m = 2 * 2 ^ length ks * 2 ^ length ks
                   then map_option (set_field ks j) (col_row m (2 ^ length ks) (col_of ks j))
                   else None))
           else None))"

text \<open>
  The classical reading of \<open>run\<close>: the basis index and the cache of measurement results.
  \<open>None\<close> is a node outside the classical fragment (a superposing gate, an unknown qubit, a
  WHILE whose guard holds, a node without condition or body).
\<close>

fun cl_run :: "(qubit \<rightharpoonup> nat) \<Rightarrow> int \<times> (qubit \<rightharpoonup> int) \<Rightarrow> instr list \<Rightarrow> (int \<times> (qubit \<rightharpoonup> int)) option" where
  "cl_run pos st [] = Some st"
| "cl_run pos (j, res) (Instr g qr ps c b # rest) =
     (if g = IF then
        (case (c, b) of
           (Some (cq, v), Some bl) \<Rightarrow>
             (if res cq = Some v then
                (case cl_run pos (j, res) bl of None \<Rightarrow> None | Some st' \<Rightarrow> cl_run pos st' rest)
              else cl_run pos (j, res) rest)
         | _ \<Rightarrow> None)
      else if g = WHILE then
        (case c of
           Some (cq, v) \<Rightarrow> (if res cq = Some v then None else cl_run pos (j, res) rest)
         | None \<Rightarrow> None)
      else if g = MEASURE \<or> g = RESET then
        (case qr of
           QOne q \<Rightarrow>
             (case pos q of
                Some k \<Rightarrow>
                  (if k < 64 then
                     (if g = MEASURE then cl_run pos (j, res(q \<mapsto> (if bit j k then 1 else 0))) rest
                      else cl_run pos (if bit j k then j XOR 2 ^ k else j, res) rest)
                   else None)
              | None \<Rightarrow> None)
         | _ \<Rightarrow> None)
      else
        (case cl_gate pos (Instr g qr ps c b) j of
           None \<Rightarrow> None
         | Some j' \<Rightarrow> cl_run pos (j', res) rest))"

text \<open>\<open>run\<close> from \<open>s\<close> returns a single-entry state holding the index and results of \<open>st\<close>,
  with the qubit map, noise profile, random stream and epsilon of \<open>s\<close>.\<close>

definition run_ok :: "sim \<Rightarrow> instr list \<Rightarrow> int \<times> (qubit \<rightharpoonup> int) \<Rightarrow> bool" where
  "run_ok s instrs st \<longleftrightarrow> (\<exists>s'. run s instrs = Some (Inr s') \<and> cls s' (fst st) \<and> results s' = snd st \<and>
     qubitMap s' = qubitMap s \<and> noiseModel s' = None \<and> rng s' = rng s \<and> epsilon s' = epsilon s)"

section \<open>Lemmas: single-entry states and pruning\<close>

lemma filter_key_single:
  "distinct (map fst es) \<Longrightarrow> j \<in> fst ` set es \<Longrightarrow> filter (\<lambda>e. fst e = j) es = [(j, amp_of es j)]"
proof (induction es)
  case Nil
  then show ?case by simp
next
  case (Cons e es)
  obtain i z where e: "e = (i, z)" by (cases e)
  show ?case
  proof (cases "i = j")
    case True
    with Cons.prems e have "j \<notin> fst ` set es" by auto
    then have "filter (\<lambda>e. fst e = j) es = []" "amp_of es j = 0"
      by (auto simp: filter_empty_conv amp_of_notin)
    then show ?thesis using True e by simp
  next
    case False
    then show ?thesis using Cons e by auto
  qed
qed

lemma norm_sq_zero [simp]: "norm_sq 0 = 0"
  by (simp add: norm_sq_def)

lemma norm_sq_mult: "norm_sq (w * z) = norm_sq w * norm_sq z"
  by (simp add: norm_sq_def power2_eq_square algebra_simps)

lemma norm_sq_one_nonzero: "norm_sq z = 1 \<Longrightarrow> z \<noteq> 0"
  by auto

lemma keep_single:
  assumes d: "distinct (map fst es)" and a: "amp_of es = amp_of [(j, w)]" and w: "norm_sq w = 1"
    and thr: "0 < thr" "thr \<le> 1"
  shows "filter (keep_amp thr) es = [(j, w)]"
proof -
  have "keep_amp thr e \<longleftrightarrow> fst e = j" if "e \<in> set es" for e
  proof -
    obtain i v where e: "e = (i, v)" by (cases e)
    have "v = amp_of [(j, w)] i" using amp_of_distinct_mem [OF d] that e a by metis
    then show ?thesis using e w thr by (auto simp: keep_amp_def norm_sq_def amp_of_single)
  qed
  then have "filter (keep_amp thr) es = filter (\<lambda>e. fst e = j) es" by (rule filter_cong [OF refl])
  moreover have "amp_of es j = w" using a by (simp add: amp_of_single)
  moreover have "j \<in> fst ` set es"
    using calculation(2) norm_sq_one_nonzero [OF w] amp_of_notin by metis
  ultimately show ?thesis using filter_key_single [OF d] by simp
qed

lemma prune_threshold_small:
  assumes "activeCount t \<le> 8" and "0 < memoryBudget t"
  shows "0 < prune_threshold t" and "prune_threshold t \<le> 1"
proof -
  note b = prune_threshold_bounds [OF assms(1) refl assms(2)]
  show "0 < prune_threshold t" using b(1) by (simp add: prune_base_def)
  have "real 8 / real (memoryBudget t) \<le> 8" using assms(2) by (simp add: divide_le_eq)
  then have "max 1 (real 8 / real (memoryBudget t)) \<le> 8" by simp
  then have "prune_base * max 1 (real 8 / real (memoryBudget t)) \<le> 1"
    by (simp add: prune_base_def)
  then show "prune_threshold t \<le> 1" using b(2) by linarith
qed

text \<open>Pruning a well-formed state whose entries stand for a single unit amplitude leaves
  exactly that entry.\<close>

lemma prune_single:
  assumes ok: "sparse_ok t" and a: "amp_of (entries t) = amp_of [(j, w)]" and w: "norm_sq w = 1"
    and n: "activeCount t \<le> 8"
  shows "sparse_ok (prune t)" and "entries (prune t) = [(j, w)]"
proof -
  have b: "buffers_ok t" and d: "distinct (map fst (entries t))" using ok by (simp_all add: sparse_ok_def)
  have "0 < memoryBudget t" using b by (simp add: buffers_ok_def)
  note thr = prune_threshold_small [OF n this]
  show "sparse_ok (prune t)" by (rule prune_sparse_ok [OF ok])
  show "entries (prune t) = [(j, w)]"
    using prune_entries(1) [OF b] keep_single [OF d a w thr] by simp
qed

lemma commit_single:
  assumes b: "buffers_ok s1" and inv: "scat_inv (length (indices s1)) cs a"
    and rng: "\<forall>t \<in> fst ` set cs. u64 t = t" and n: "length cs \<le> 8"
    and amp: "amp_of cs = amp_of [(j, w)]" and w: "norm_sq w = 1"
  shows "sparse_ok (prune (scatter_commit s1 a))" and "entries (prune (scatter_commit s1 a)) = [(j, w)]"
proof -
  note c = scatter_commit_ok [OF b inv rng]
  have "activeCount (scatter_commit s1 a) \<le> 8"
    using scat_inv_nextCount [OF inv] n by (simp add: scatter_commit_def swapBuffers_def)
  note p = prune_single [OF c(1) _ w this]
  show "sparse_ok (prune (scatter_commit s1 a))" "entries (prune (scatter_commit s1 a)) = [(j, w)]"
    using p c(2) amp by simp_all
qed

section \<open>Lemmas: classical columns\<close>

lemma col_row_Some:
  assumes "col_row m n c = Some r"
  shows "r < n" and "norm_sq (mat_entry m n r c) = 1"
    and "\<And>r'. r' < n \<Longrightarrow> r' \<noteq> r \<Longrightarrow> mat_entry m n r' c = 0"
proof -
  have f: "filter (\<lambda>r. mat_entry m n r c \<noteq> 0) [0..<n] = [r]" and u: "norm_sq (mat_entry m n r c) = 1"
    using assms by (auto simp: col_row_def split: list.splits if_splits)
  have "r \<in> set (filter (\<lambda>r. mat_entry m n r c \<noteq> 0) [0..<n])" unfolding f by simp
  then show "r < n" by simp
  show "norm_sq (mat_entry m n r c) = 1" by (fact u)
  fix r' assume "r' < n" "r' \<noteq> r"
  then have "r' \<notin> set (filter (\<lambda>r. mat_entry m n r c \<noteq> 0) [0..<n])" unfolding f by simp
  with \<open>r' < n\<close> show "mat_entry m n r' c = 0" by simp
qed

text \<open>A classical column sends a basis vector to a single basis vector: \<open>gateN\<close> on the
  basis index \<open>j\<close> gives the index with the gate's bits replaced by the row.\<close>

lemma gateN_basis:
  assumes d: "distinct ks" and cr: "col_row m (2 ^ length ks) (col_of ks j) = Some r"
  shows "gateN m ks (amp_of [(j, z)]) =
           amp_of [(set_field ks j r, mat_entry m (2 ^ length ks) r (col_of ks j) * z)]"
proof
  fix i
  let ?N = "2 ^ length ks :: nat" and ?b = "\<lambda>x. x AND NOT (maskN ks)"
  note c = col_row_Some [OF cr]
  have e: "(j = set_field ks i x) \<longleftrightarrow> ?b i = ?b j \<and> x = col_of ks j" if "x < ?N" for x
    using set_field_eq_iff [OF d that, of i j] by auto
  have "gateN m ks (amp_of [(j, z)]) i =
        (\<Sum>x<?N. if x = col_of ks j then (if ?b i = ?b j then mat_entry m ?N (col_of ks i) x * z else 0) else 0)"
    unfolding gateN_def by (intro sum.cong refl) (auto simp: amp_of_single e)
  also have "\<dots> = (if ?b i = ?b j then mat_entry m ?N (col_of ks i) (col_of ks j) * z else 0)"
    using col_of_less [of ks j] by (simp add: sum.delta)
  also have "\<dots> = amp_of [(set_field ks j r, mat_entry m ?N r (col_of ks j) * z)] i"
  proof (cases "?b i = ?b j")
    case True
    have "col_of ks i < ?N" by (rule col_of_less)
    then show ?thesis
      using True c(1) c(3) [of "col_of ks i"] by (auto simp: amp_of_single set_field_eq_iff [OF d])
  next
    case False
    then show ?thesis using c(1) by (auto simp: amp_of_single set_field_eq_iff [OF d])
  qed
  finally show "gateN m ks (amp_of [(j, z)]) i =
      amp_of [(set_field ks j r, mat_entry m (2 ^ length ks) r (col_of ks j) * z)] i" .
qed

section \<open>Lemmas: every gate path as one scatter\<close>

lemma results_prune [simp]: "results (prune s) = results s"
  by (simp add: prune_def split: prod.split)

lemma results_commit [simp]: "results (scatter_commit (ensureCapacity n s) a) = results s"
  by (simp add: scatter_commit_def swapBuffers_def ensureCapacity_def Let_def)

text \<open>\<open>applyGate\<close> with a catalog matrix, the Z fast path included, is one scatter whose
  contributions stand for the action \<open>gateN mat [k]\<close>.\<close>

lemma applyGate_scatter:
  assumes ok: "sparse_ok s" and q: "qubitMap s q = Some k" and k: "k < 64" and m: "GATES g ps = Some mat"
  shows "\<exists>n a cs. applyGate g q ps s = Inr (prune (scatter_commit (ensureCapacity n s) a)) \<and>
     buffers_ok (ensureCapacity n s) \<and> scat_inv (length (indices (ensureCapacity n s))) cs a \<and>
     (\<forall>t \<in> fst ` set cs. u64 t = t) \<and> length cs \<le> 2 * activeCount s \<and>
     amp_of cs = gateN mat [k] (amp_of (entries s))"
proof (cases "g = Z")
  case True
  let ?s1 = "ensureCapacity (activeCount s * 2) s"
  let ?a = "scatter_all (applyZ_entry (2 ^ k)) ?s1 (scatter_init ?s1)"
  note b = applyZ_scatter(1) [OF ok]
  note f = applyZ_scatter(3-6) [OF ok, where k = k]
  have "applyGate g q ps s = Inr (prune (scatter_commit ?s1 ?a))"
    using q True by (simp add: applyGate_def qubit_bit_def Let_def)
  moreover have "mat = Z_mat" using m True by simp
  ultimately show ?thesis using b f unfolding gate1_as_gateN by fastforce
next
  case False
  let ?s1 = "ensureCapacity (activeCount s * 2) s"
  let ?a = "scatter_all (apply1_entry mat (2 ^ k)) ?s1 (scatter_init ?s1)"
  note f = apply1_scatter [OF ok k]
  have "applyGate g q ps s = Inr (prune (scatter_commit ?s1 ?a))"
    using q m False by (simp add: applyGate_def qubit_bit_def Let_def)
  then show ?thesis using f unfolding gate1_as_gateN by fastforce
qed

text \<open>\<open>apply2QubitGate\<close>, fast paths included, is one scatter standing for \<open>gateN mat [k1, k2]\<close>.\<close>

lemma apply2QubitGate_scatter:
  assumes ok: "sparse_ok s" and q: "qubitMap s q1 = Some k1" "qubitMap s q2 = Some k2"
    and k: "k1 \<noteq> k2" "k1 < 64" "k2 < 64" and m: "GATES g ps = Some mat"
  shows "\<exists>n a cs. apply2QubitGate g q1 q2 ps s = Inr (prune (scatter_commit (ensureCapacity n s) a)) \<and>
     buffers_ok (ensureCapacity n s) \<and> scat_inv (length (indices (ensureCapacity n s))) cs a \<and>
     (\<forall>t \<in> fst ` set cs. u64 t = t) \<and> length cs \<le> 4 * activeCount s \<and>
     amp_of cs = gateN mat [k1, k2] (amp_of (entries s))"
proof (cases "g \<in> {CZ, CNOT, SWAP}")
  case True
  obtain f sg where e: "apply2_entry g mat (2 ^ k1) (2 ^ k2) =
                  (\<lambda>idx re im. accumulate_next (f idx) (re * sg idx) (im * sg idx))"
    and d: "\<forall>x. f (f x) = x" "\<forall>i. u64 i = i \<longrightarrow> u64 (f i) = f i"
           "\<forall>\<psi> j. of_real (sg (f j)) * \<psi> (f j) = gateN mat [k1, k2] \<psi> j"
    using fast_path_data [OF k True m] by blast
  have "\<exists>a cs. apply2QubitGate g q1 q2 ps s = Inr (prune (scatter_commit (ensureCapacity (activeCount s * 4) s) a)) \<and>
     buffers_ok (ensureCapacity (activeCount s * 4) s) \<and>
     scat_inv (length (indices (ensureCapacity (activeCount s * 4) s))) cs a \<and>
     (\<forall>t \<in> fst ` set cs. u64 t = t) \<and> length cs \<le> activeCount s \<and>
     amp_of cs = gateN mat [k1, k2] (amp_of (entries s))"
    using apply2_fast_scatter [OF ok q m e] d by blast
  then obtain a cs where "apply2QubitGate g q1 q2 ps s = Inr (prune (scatter_commit (ensureCapacity (activeCount s * 4) s) a))"
    "buffers_ok (ensureCapacity (activeCount s * 4) s)"
    "scat_inv (length (indices (ensureCapacity (activeCount s * 4) s))) cs a"
    "\<forall>t \<in> fst ` set cs. u64 t = t" "length cs \<le> activeCount s"
    "amp_of cs = gateN mat [k1, k2] (amp_of (entries s))" by blast
  moreover have "length cs \<le> 4 * activeCount s" using calculation(5) by linarith
  ultimately show ?thesis by blast
next
  case False
  let ?ks = "[k1, k2]"
  let ?s1 = "ensureCapacity (activeCount s * 2 ^ length ?ks) s"
  let ?body = "\<lambda>idx re im. scatter_rows (2 ^ length ?ks) mat (map (set_field ?ks idx) [0..<2 ^ length ?ks])
                                       (col_of ?ks idx) re im"
  have d: "distinct ?ks" and r: "\<forall>k \<in> set ?ks. k < 64" using k by auto
  note f = applyN_scatter [OF ok d r]
  have "apply2QubitGate g q1 q2 ps s = Inr (prune (scatter_commit ?s1 (scatter_all ?body ?s1 (scatter_init ?s1))))"
    using q False m apply2_entry_generic [of g mat k1 k2]
    by (simp add: apply2QubitGate_def qubit_bit_def Let_def)
  then show ?thesis using f by fastforce
qed

lemma apply3QubitGate_scatter:
  assumes ok: "sparse_ok s"
    and q: "qubitMap s q1 = Some k1" "qubitMap s q2 = Some k2" "qubitMap s q3 = Some k3"
    and k: "distinct [k1, k2, k3]" "k1 < 64" "k2 < 64" "k3 < 64" and m: "GATES g ps = Some mat"
  shows "\<exists>n a cs. apply3QubitGate g q1 q2 q3 ps s = Inr (prune (scatter_commit (ensureCapacity n s) a)) \<and>
     buffers_ok (ensureCapacity n s) \<and> scat_inv (length (indices (ensureCapacity n s))) cs a \<and>
     (\<forall>t \<in> fst ` set cs. u64 t = t) \<and> length cs \<le> 8 * activeCount s \<and>
     amp_of cs = gateN mat [k1, k2, k3] (amp_of (entries s))"
proof -
  let ?ks = "[k1, k2, k3]"
  let ?s1 = "ensureCapacity (activeCount s * 2 ^ length ?ks) s"
  let ?body = "\<lambda>idx re im. scatter_rows (2 ^ length ?ks) mat (map (set_field ?ks idx) [0..<2 ^ length ?ks])
                                       (col_of ?ks idx) re im"
  have r: "\<forall>k \<in> set ?ks. k < 64" using k by auto
  note f = applyN_scatter [OF ok k(1) r]
  have "apply3QubitGate g q1 q2 q3 ps s = Inr (prune (scatter_commit ?s1 (scatter_all ?body ?s1 (scatter_init ?s1))))"
    using q m apply3_entry_eq [of mat k1 k2 k3]
    by (simp add: apply3QubitGate_def qubit_bit_def Let_def)
  then show ?thesis using f by fastforce
qed

lemma length_2_conv: "length xs = 2 \<Longrightarrow> \<exists>a b. xs = [a, b]"
  by (auto simp: numeral_2_eq_2 length_Suc_conv)

lemma length_3_conv: "length xs = 3 \<Longrightarrow> \<exists>a b c. xs = [a, b, c]"
  by (auto simp: numeral_3_eq_3 length_Suc_conv)

lemma positions_cases:
  assumes "positions pos qr = Some ks"
  obtains q k where "qr = QOne q" "pos q = Some k" "ks = [k]"
    | q1 q2 k1 k2 where "qr = QList [q1, q2]" "pos q1 = Some k1" "pos q2 = Some k2" "ks = [k1, k2]"
    | q1 q2 q3 k1 k2 k3 where "qr = QList [q1, q2, q3]" "pos q1 = Some k1" "pos q2 = Some k2"
        "pos q3 = Some k3" "ks = [k1, k2, k3]"
proof (cases qr)
  case (QOne q)
  then show ?thesis using assms that(1) by auto
next
  case (QList qs)
  then have "length qs = 2 \<or> length qs = 3" using assms by (auto split: if_splits)
  then show ?thesis
  proof
    assume "length qs = 2"
    then obtain a b where "qs = [a, b]" using length_2_conv by blast
    then show ?thesis using assms QList that(2) by (auto split: option.splits)
  next
    assume "length qs = 3"
    then obtain a b c where "qs = [a, b, c]" using length_3_conv by blast
    then show ?thesis using assms QList that(3) by (auto split: option.splits)
  qed
next
  case QNull
  then show ?thesis using assms by simp
qed

lemma positions_length: "positions pos qr = Some ks \<Longrightarrow> length ks \<le> 3"
  by (erule positions_cases) auto

lemma gate_commit_fields:
  "qubitMap (prune (scatter_commit (ensureCapacity n s) a)) = qubitMap s"
  "noiseModel (prune (scatter_commit (ensureCapacity n s) a)) = noiseModel s"
  "rng (prune (scatter_commit (ensureCapacity n s) a)) = rng s"
  "draws (prune (scatter_commit (ensureCapacity n s) a)) = draws s"
  "epsilon (prune (scatter_commit (ensureCapacity n s) a)) = epsilon s"
  "results (prune (scatter_commit (ensureCapacity n s) a)) = results s"
  by (simp_all add: gate_result_fields)

lemma exec_op_noiseless:
  assumes "noiseModel s' = None"
  shows "g \<noteq> RESET \<Longrightarrow> g \<noteq> MEASURE \<Longrightarrow> applyGate g q ps s = Inr s' \<Longrightarrow>
           exec_op s (Instr g (QOne q) ps c b) = Inr s'"
    and "apply2QubitGate g q1 q2 ps s = Inr s' \<Longrightarrow> exec_op s (Instr g (QList [q1, q2]) ps c b) = Inr s'"
    and "apply3QubitGate g q1 q2 q3 ps s = Inr s' \<Longrightarrow> exec_op s (Instr g (QList [q1, q2, q3]) ps c b) = Inr s'"
  using assms by (simp_all add: exec_op_def Let_def)

text \<open>A gate node of \<open>run\<close> without a noise profile: one of the three gate methods, hence
  one scatter standing for \<open>gateN\<close> on the node's bit positions.\<close>

lemma exec_op_gate_scatter:
  assumes ok: "sparse_ok s" and nm: "noiseModel s = None" and g: "gate op \<noteq> RESET" "gate op \<noteq> MEASURE"
    and pk: "positions (qubitMap s) (qubit op) = Some ks" and d: "distinct ks"
    and r: "list_all (\<lambda>k. k < 64) ks" and m: "GATES (gate op) (params op) = Some mat"
  shows "\<exists>n a cs. exec_op s op = Inr (prune (scatter_commit (ensureCapacity n s) a)) \<and>
     buffers_ok (ensureCapacity n s) \<and> scat_inv (length (indices (ensureCapacity n s))) cs a \<and>
     (\<forall>t \<in> fst ` set cs. u64 t = t) \<and> length cs \<le> 2 ^ length ks * activeCount s \<and>
     amp_of cs = gateN mat ks (amp_of (entries s))"
proof -
  from pk show ?thesis
  proof (cases rule: positions_cases)
    case (1 q k)
    obtain n a cs where f: "applyGate (gate op) q (params op) s = Inr (prune (scatter_commit (ensureCapacity n s) a))"
      "buffers_ok (ensureCapacity n s)" "scat_inv (length (indices (ensureCapacity n s))) cs a"
      "\<forall>t \<in> fst ` set cs. u64 t = t" "length cs \<le> 2 * activeCount s"
      "amp_of cs = gateN mat [k] (amp_of (entries s))"
      using applyGate_scatter [OF ok 1(2) _ m] r 1(3) by auto
    have "exec_op s op = Inr (prune (scatter_commit (ensureCapacity n s) a))"
      using exec_op_noiseless(1) [OF _ g f(1)] nm 1(1) by (cases op) (simp add: gate_commit_fields gate_result_fields)
    then show ?thesis using f 1(3) by auto
  next
    case (2 q1 q2 k1 k2)
    obtain n a cs where f: "apply2QubitGate (gate op) q1 q2 (params op) s = Inr (prune (scatter_commit (ensureCapacity n s) a))"
      "buffers_ok (ensureCapacity n s)" "scat_inv (length (indices (ensureCapacity n s))) cs a"
      "\<forall>t \<in> fst ` set cs. u64 t = t" "length cs \<le> 4 * activeCount s"
      "amp_of cs = gateN mat [k1, k2] (amp_of (entries s))"
      using apply2QubitGate_scatter [OF ok 2(2,3) _ _ _ m] d r 2(4) by auto
    have "exec_op s op = Inr (prune (scatter_commit (ensureCapacity n s) a))"
      using exec_op_noiseless(2) [OF _ f(1)] nm 2(1) by (cases op) (simp add: gate_commit_fields gate_result_fields)
    then show ?thesis using f 2(4) by auto
  next
    case (3 q1 q2 q3 k1 k2 k3)
    obtain n a cs where f: "apply3QubitGate (gate op) q1 q2 q3 (params op) s = Inr (prune (scatter_commit (ensureCapacity n s) a))"
      "buffers_ok (ensureCapacity n s)" "scat_inv (length (indices (ensureCapacity n s))) cs a"
      "\<forall>t \<in> fst ` set cs. u64 t = t" "length cs \<le> 8 * activeCount s"
      "amp_of cs = gateN mat [k1, k2, k3] (amp_of (entries s))"
      using apply3QubitGate_scatter [OF ok 3(2,3,4) _ _ _ _ m] d r 3(5) by auto
    have "exec_op s op = Inr (prune (scatter_commit (ensureCapacity n s) a))"
      using exec_op_noiseless(3) [OF _ f(1)] nm 3(1) by (cases op) (simp add: gate_commit_fields gate_result_fields)
    then show ?thesis using f 3(5) by auto
  qed
qed

section \<open>Lemmas: one node on a single-entry state\<close>

lemma length_entries: "length (entries s) = activeCount s"
  by (simp add: entries_def view_def)

lemma cls_entries:
  assumes "cls s j"
  obtains z where "entries s = [(j, z)]" "norm_sq z = 1" "activeCount s = 1" "sparse_ok s"
  using assms length_entries [of s] by (auto simp: cls_def)

lemma cls_prune: "cls t j \<Longrightarrow> cls (prune t) j"
  by (erule cls_entries) (auto simp: cls_def dest: prune_single [of t j])

lemma cls_results [simp]: "cls (s\<lparr>results := r\<rparr>) j = cls s j"
  by (simp add: cls_def sparse_ok_def buffers_ok_def entries_def)

text \<open>The commit and prune of a gate scatter standing for \<open>gateN mat ks\<close>, on a state holding
  basis index \<open>j\<close> where the matrix column is classical.\<close>

lemma scatter_cls:
  assumes c: "cls s j" and b: "buffers_ok s1" and inv: "scat_inv (length (indices s1)) cs a"
    and rng: "\<forall>t \<in> fst ` set cs. u64 t = t" and n: "length cs \<le> 2 ^ length ks * activeCount s"
    and l: "length ks \<le> 3" and amp: "amp_of cs = gateN mat ks (amp_of (entries s))"
    and d: "distinct ks" and cr: "col_row mat (2 ^ length ks) (col_of ks j) = Some r"
  shows "cls (prune (scatter_commit s1 a)) (set_field ks j r)"
proof -
  obtain z where e: "entries s = [(j, z)]" "norm_sq z = 1" "activeCount s = 1" using c by (rule cls_entries)
  let ?w = "mat_entry mat (2 ^ length ks) r (col_of ks j) * z"
  have "(2::nat) ^ length ks \<le> 2 ^ 3" using l by (rule power_increasing) simp
  then have n8: "length cs \<le> 8" using n e(3) by simp
  have a: "amp_of cs = amp_of [(set_field ks j r, ?w)]" using amp e(1) gateN_basis [OF d cr] by simp
  have w: "norm_sq ?w = 1" using col_row_Some(2) [OF cr] e(2) by (simp add: norm_sq_mult)
  show ?thesis using commit_single [OF b inv rng n8 a w] w by (auto simp: cls_def)
qed

lemma exec_op_gate_cls:
  assumes c: "cls s j" and nm: "noiseModel s = None" and g: "gate op \<noteq> RESET" "gate op \<noteq> MEASURE"
    and cg: "cl_gate (qubitMap s) op j = Some j'"
  shows "\<exists>s'. exec_op s op = Inr s' \<and> cls s' j' \<and> results s' = results s \<and> qubitMap s' = qubitMap s \<and>
     noiseModel s' = None \<and> rng s' = rng s \<and> draws s' = draws s \<and> epsilon s' = epsilon s"
proof -
  obtain ks mat r where pk: "positions (qubitMap s) (qubit op) = Some ks" and d: "distinct ks"
    and lk: "list_all (\<lambda>k. k < 64) ks" and m: "GATES (gate op) (params op) = Some mat"
    and cr: "col_row mat (2 ^ length ks) (col_of ks j) = Some r" and j': "j' = set_field ks j r"
    using cg by (auto simp: cl_gate_def split: option.splits if_splits)
  have ok: "sparse_ok s" using c by (simp add: cls_def)
  obtain n a cs where f: "exec_op s op = Inr (prune (scatter_commit (ensureCapacity n s) a))"
    "buffers_ok (ensureCapacity n s)" "scat_inv (length (indices (ensureCapacity n s))) cs a"
    "\<forall>t \<in> fst ` set cs. u64 t = t" "length cs \<le> 2 ^ length ks * activeCount s"
    "amp_of cs = gateN mat ks (amp_of (entries s))"
    using exec_op_gate_scatter [OF ok nm g pk d lk m] by blast
  have "cls (prune (scatter_commit (ensureCapacity n s) a)) j'"
    unfolding j' by (rule scatter_cls [OF c f(2-5) positions_length [OF pk] f(6) d cr])
  then show ?thesis using f(1) nm by (simp add: gate_commit_fields gate_result_fields)
qed

lemma col_row_X: "col_row X_mat 2 (col_of [k] j) = Some (if bit j k then 0 else 1)"
  by (simp add: col_row_def X_mat_def mat_entry_def norm_sq_def upt_rec Complex_eq_0)

lemma set_field_flip: "set_field [k] j (if bit j k then 0 else 1) = j XOR 2 ^ k"
  by (rule bit_eqI) (auto simp: bit_set_field bit_xor_iff bit_exp_iff bit_0)

lemma applyGate_X_cls:
  assumes c: "cls s j" and q: "qubitMap s q = Some k" and k: "k < 64"
  shows "\<exists>s'. applyGate X q [] s = Inr s' \<and> cls s' (j XOR 2 ^ k) \<and> results s' = results s \<and>
     qubitMap s' = qubitMap s \<and> noiseModel s' = noiseModel s \<and> rng s' = rng s \<and> draws s' = draws s \<and>
     epsilon s' = epsilon s"
proof -
  have ok: "sparse_ok s" using c by (simp add: cls_def)
  obtain n a cs where f: "applyGate X q [] s = Inr (prune (scatter_commit (ensureCapacity n s) a))"
    "buffers_ok (ensureCapacity n s)" "scat_inv (length (indices (ensureCapacity n s))) cs a"
    "\<forall>t \<in> fst ` set cs. u64 t = t" "length cs \<le> 2 * activeCount s"
    "amp_of cs = gateN X_mat [k] (amp_of (entries s))"
    using applyGate_scatter [OF ok q k, of X "[]" X_mat] by auto
  have cr: "col_row X_mat (2 ^ length [k]) (col_of [k] j) = Some (if bit j k then 0 else 1)"
    using col_row_X by simp
  have "cls (prune (scatter_commit (ensureCapacity n s) a)) (set_field [k] j (if bit j k then 0 else 1))"
    by (rule scatter_cls [OF c f(2-4) _ _ f(6) _ cr]) (use f(5) in simp_all)
  then show ?thesis using f(1) by (simp add: set_field_flip gate_commit_fields gate_result_fields)
qed

text \<open>Measuring a qubit of a basis state reports its bit whatever the draw in \<open>[0, 1)\<close>, and
  leaves the state as it was; one draw is consumed.\<close>

lemma measure_cls:
  assumes c: "cls s j" and nm: "noiseModel s = None" and q: "qubitMap s q = Some k"
    and u: "0 \<le> rng s (draws s)" "rng s (draws s) < 1"
  shows "\<exists>s'. measure_sim s q = Inr (if bit j k then 1 else 0, s') \<and> cls s' j \<and> results s' = results s \<and>
     qubitMap s' = qubitMap s \<and> noiseModel s' = None \<and> rng s' = rng s \<and> draws s' = Suc (draws s) \<and>
     epsilon s' = epsilon s"
proof -
  obtain z where e: "entries s = [(j, z)]" "norm_sq z = 1" and ok: "sparse_ok s"
    using c by (rule cls_entries)
  let ?b = "if bit j k then 1 else 0 :: int"
  have p: "prob1_of (2 ^ k) (entries s) = (if bit j k then 1 else 0)"
    using e by (simp add: prob1_of_def and_exp_nonzero_iff)
  have r: "(if rng s (draws s) < (if bit j k then 1 else 0) then 1 else 0 :: int) = ?b" using u by auto
  have o: "filter (outcome (2 ^ k) ?b) [(j, z)] = [(j, z)]"
    by (simp add: outcome_def and_exp_nonzero_iff)
  have "\<exists>s'. measure_sim s q = Inr (?b, s') \<and> sparse_ok s' \<and> entries s' = [(j, z)] \<and>
     s' = s\<lparr>draws := Suc (draws s), indices := indices s', amplitudes := amplitudes s',
            activeCount := activeCount s'\<rparr>"
    using nm p r e(1) o measure_eq [OF ok q] by (cases "bit j k") simp_all
  then obtain s' where m: "measure_sim s q = Inr (?b, s')" and ok': "sparse_ok s'"
    and es: "entries s' = [(j, z)]"
    and f: "s' = s\<lparr>draws := Suc (draws s), indices := indices s', amplitudes := amplitudes s',
            activeCount := activeCount s'\<rparr>" by blast
  have "cls s' j" using ok' es e(2) by (auto simp: cls_def)
  moreover have "results s' = results s \<and> qubitMap s' = qubitMap s \<and> noiseModel s' = None \<and> rng s' = rng s \<and>
     draws s' = Suc (draws s) \<and> epsilon s' = epsilon s"
    using nm by (subst f, simp)+
  ultimately show ?thesis using m by blast
qed

lemma exec_op_measure_cls:
  assumes c: "cls s j" and nm: "noiseModel s = None" and q: "qubitMap s q = Some k"
    and u: "0 \<le> rng s (draws s)" "rng s (draws s) < 1"
  shows "\<exists>s'. exec_op s (Instr MEASURE (QOne q) ps cd b) = Inr s' \<and> cls s' j \<and>
     results s' = (results s)(q \<mapsto> (if bit j k then 1 else 0)) \<and> qubitMap s' = qubitMap s \<and>
     noiseModel s' = None \<and> rng s' = rng s \<and> draws s' = Suc (draws s) \<and> epsilon s' = epsilon s"
proof -
  obtain s1 where m: "measure_sim s q = Inr (if bit j k then 1 else 0, s1)" and c1: "cls s1 j"
    and f: "results s1 = results s" "qubitMap s1 = qubitMap s" "noiseModel s1 = None" "rng s1 = rng s"
      "draws s1 = Suc (draws s)" "epsilon s1 = epsilon s"
    using measure_cls [OF c nm q u] by blast
  let ?s' = "prune (s1\<lparr>results := (results s1)(q \<mapsto> (if bit j k then 1 else 0))\<rparr>)"
  have "exec_op s (Instr MEASURE (QOne q) ps cd b) = Inr ?s'" using m by (simp add: exec_op_def Let_def)
  moreover have "cls ?s' j" using c1 by (simp add: cls_prune)
  ultimately show ?thesis using f by simp
qed

lemma exec_op_reset_cls:
  assumes c: "cls s j" and nm: "noiseModel s = None" and q: "qubitMap s q = Some k" and k: "k < 64"
    and u: "0 \<le> rng s (draws s)" "rng s (draws s) < 1"
  shows "\<exists>s'. exec_op s (Instr RESET (QOne q) ps cd b) = Inr s' \<and>
     cls s' (if bit j k then j XOR 2 ^ k else j) \<and> results s' = results s \<and> qubitMap s' = qubitMap s \<and>
     noiseModel s' = None \<and> rng s' = rng s \<and> draws s' = Suc (draws s) \<and> epsilon s' = epsilon s"
proof -
  obtain s1 where m: "measure_sim s q = Inr (if bit j k then 1 else 0, s1)" and c1: "cls s1 j"
    and f: "results s1 = results s" "qubitMap s1 = qubitMap s" "noiseModel s1 = None" "rng s1 = rng s"
      "draws s1 = Suc (draws s)" "epsilon s1 = epsilon s"
    using measure_cls [OF c nm q u] by blast
  note r = exec_op_reset [OF m, of ps cd b]
  show ?thesis
  proof (cases "bit j k")
    case True
    obtain s2 where x: "applyGate X q [] s1 = Inr s2" and c2: "cls s2 (j XOR 2 ^ k)"
      and f2: "results s2 = results s1" "qubitMap s2 = qubitMap s1" "noiseModel s2 = noiseModel s1"
        "rng s2 = rng s1" "draws s2 = draws s1" "epsilon s2 = epsilon s1"
      using applyGate_X_cls [OF c1 _ k, of q] q f(2) by auto
    show ?thesis using r True x cls_prune [OF c2] f f2 by simp
  next
    case False
    show ?thesis using r False cls_prune [OF c1] f by simp
  qed
qed

section \<open>Lemmas: \<open>run\<close> implements \<open>cl_run\<close>\<close>

lemma run_ok_step:
  assumes "run s instrs = run s1 instrs'" and "qubitMap s1 = qubitMap s" and "rng s1 = rng s"
    and "epsilon s1 = epsilon s" and "run_ok s1 instrs' st"
  shows "run_ok s instrs st"
  using assms by (auto simp: run_ok_def)

lemma run_cl:
  "cl_run pos st instrs = Some st' \<Longrightarrow> pos = qubitMap s \<Longrightarrow> snd st = results s \<Longrightarrow> cls s (fst st) \<Longrightarrow>
   noiseModel s = None \<Longrightarrow> \<forall>i. 0 \<le> rng s i \<and> rng s i < 1 \<Longrightarrow> run_ok s instrs st'"
proof (induction pos st instrs arbitrary: s st' rule: cl_run.induct)
  case (1 pos st)
  then show ?case by (auto simp: run_ok_def run_Nil)
next
  case (2 pos j res g qr ps c b rest)
  note pr = "2.prems"
  have u: "0 \<le> rng s (draws s)" "rng s (draws s) < 1" using pr(6) by auto
  consider (iff) "g = IF" | (wh) "g \<noteq> IF" "g = WHILE" | (mr) "g \<noteq> IF" "g \<noteq> WHILE" "g = MEASURE \<or> g = RESET"
    | (gt) "g \<noteq> IF" "g \<noteq> WHILE" "\<not> (g = MEASURE \<or> g = RESET)" by blast
  then show ?case
  proof cases
    case iff
    obtain cq v bl where cb: "c = Some (cq, v)" "b = Some bl"
      using pr(1) iff by (auto split: option.splits prod.splits)
    show ?thesis
    proof (cases "res cq = Some v")
      case True
      obtain st1 where b1: "cl_run pos (j, res) bl = Some st1" and r1: "cl_run pos st1 rest = Some st'"
        using pr(1) iff cb True by (auto split: option.splits)
      have "run_ok s bl st1"
        using "2.IH"(1) [of "Some (cq, v)" "Some bl" "(cq, v)" cq v bl st1 s] iff cb True b1 pr(2-6) by simp
      then obtain s1 where s1: "run s bl = Some (Inr s1)" "cls s1 (fst st1)" "results s1 = snd st1"
        "qubitMap s1 = qubitMap s" "noiseModel s1 = None" "rng s1 = rng s" "epsilon s1 = epsilon s"
        unfolding run_ok_def by blast
      have "run_ok s1 rest st'"
        using "2.IH"(2) [of "Some (cq, v)" "Some bl" "(cq, v)" cq v bl st1 st' s1] iff cb True b1 r1 s1 pr(2,6)
        by simp
      moreover have "run s (Instr g qr ps c b # rest) = run s1 rest"
        using run_cons_IF [of "Instr g qr ps c b" s rest] iff cb True s1(1) pr(3) by simp
      ultimately show ?thesis using run_ok_step s1 by metis
    next
      case False
      have "run_ok s rest st'"
        using "2.IH"(3) [of "Some (cq, v)" "Some bl" "(cq, v)" cq v bl st' s] iff cb False pr by simp
      moreover have "run s (Instr g qr ps c b # rest) = run s rest"
        using run_cons_IF [of "Instr g qr ps c b" s rest] iff cb False pr(3) by simp
      ultimately show ?thesis using run_ok_step by metis
    qed
  next
    case wh
    obtain cq v where cb: "c = Some (cq, v)" and f: "res cq \<noteq> Some v"
      using pr(1) wh by (auto split: option.splits if_splits)
    have "run_ok s rest st'" using "2.IH"(4) [of "(cq, v)" cq v st' s] wh cb f pr by simp
    moreover have "run s (Instr g qr ps c b # rest) = run s rest"
      using wh cb f pr(3) by (subst run.simps) simp
    ultimately show ?thesis using run_ok_step by metis
  next
    case mr
    obtain q k where q: "qr = QOne q" "pos q = Some k" and k: "k < 64"
      using pr(1) mr by (auto split: qref.splits option.splits if_splits)
    have qm: "qubitMap s q = Some k" using q pr(2) by simp
    have c: "cls s j" using pr(4) by simp
    show ?thesis
    proof (cases "g = MEASURE")
      case True
      obtain s1 where e: "exec_op s (Instr MEASURE (QOne q) ps c b) = Inr s1" and c1: "cls s1 j"
        and f: "results s1 = (results s)(q \<mapsto> (if bit j k then 1 else 0))" "qubitMap s1 = qubitMap s"
          "noiseModel s1 = None" "rng s1 = rng s" "epsilon s1 = epsilon s"
        using exec_op_measure_cls [OF c pr(5) qm u, of ps c b] by blast
      have "run_ok s1 rest st'"
        using pr(3) "2.IH"(5) [of q k st' s1] mr True q k pr f c1 by simp
      moreover have "run s (Instr g qr ps c b # rest) = run s1 rest"
        using run_cons_step [of "Instr g qr ps c b" s rest] True q e by simp
      ultimately show ?thesis using run_ok_step f by metis
    next
      case False
      then have g: "g = RESET" using mr by simp
      obtain s1 where e: "exec_op s (Instr RESET (QOne q) ps c b) = Inr s1"
        and c1: "cls s1 (if bit j k then j XOR 2 ^ k else j)"
        and f: "results s1 = results s" "qubitMap s1 = qubitMap s"
          "noiseModel s1 = None" "rng s1 = rng s" "epsilon s1 = epsilon s"
        using exec_op_reset_cls [OF c pr(5) qm k u, of ps c b] by blast
      have "run_ok s1 rest st'"
        using "2.IH"(6) [of q k st' s1] mr False q k pr f c1 by simp
      moreover have "run s (Instr g qr ps c b # rest) = run s1 rest"
        using run_cons_step [of "Instr g qr ps c b" s rest] g q e by simp
      ultimately show ?thesis using run_ok_step f by metis
    qed
  next
    case gt
    obtain j1 where cg: "cl_gate pos (Instr g qr ps c b) j = Some j1" and r1: "cl_run pos (j1, res) rest = Some st'"
      using pr(1) gt by (auto split: option.splits)
    obtain s1 where e: "exec_op s (Instr g qr ps c b) = Inr s1" and c1: "cls s1 j1"
      and f: "results s1 = results s" "qubitMap s1 = qubitMap s"
        "noiseModel s1 = None" "rng s1 = rng s" "epsilon s1 = epsilon s"
      using exec_op_gate_cls [of s j "Instr g qr ps c b" j1] pr(2,4,5) gt cg by auto
    have "run_ok s1 rest st'" using "2.IH"(7) [of j1 st' s1] gt cg r1 pr f c1 by simp
    moreover have "run s (Instr g qr ps c b # rest) = run s1 rest"
      using run_cons_step [of "Instr g qr ps c b" s rest] gt e by simp
    ultimately show ?thesis using run_ok_step f by metis
  qed
qed

text \<open>The facts that evaluate \<open>cl_run\<close> on a concrete circuit by \<open>simp\<close>.\<close>

lemmas cl_eval = cl_gate_def col_row_def mat_entry_def norm_sq_def set_field_def upt_rec Complex_eq_0 bit_0

text \<open>
  C39. On basis states the simulator computes the classical semantics: from a
  well-formed state holding a single basis index \<open>j\<close> (amplitude of modulus 1), without a
  noise profile and with every draw of the random stream in \<open>[0, 1)\<close>, \<open>run\<close> on an
  instruction list in the classical fragment returns (no error, no divergence) a
  well-formed single-entry state at the index \<open>cl_run\<close> computes, with the measurement
  cache \<open>cl_run\<close> computes: every MEASURE reports the bit of the index, every RESET clears
  it, every IF branches on the cached bit, every gate moves the index along its matrix
  column. The qubit map, noise profile, random stream and epsilon are unchanged.
\<close>

theorem run_implements_classical:
  assumes "cls s j" and "noiseModel s = None" and "\<forall>i. 0 \<le> rng s i \<and> rng s i < 1"
    and "cl_run (qubitMap s) (j, results s) instrs = Some (j', res')"
  shows "\<exists>s'. run s instrs = Some (Inr s') \<and> cls s' j' \<and> results s' = res' \<and> qubitMap s' = qubitMap s \<and>
     noiseModel s' = None \<and> rng s' = rng s \<and> epsilon s' = epsilon s"
  using run_cl [OF assms(4) refl _ _ assms(2,3)] assms(1) unfolding run_ok_def by simp

theorem run_implements_classical_witness:
  "\<exists>s'. run (Simulator [0] None None (\<lambda>_. 0))
          [Instr X (QOne 0) [] None None, Instr MEASURE (QOne 0) [] None None] = Some (Inr s') \<and>
     cls s' 1 \<and> results s' = [0 \<mapsto> 1] \<and> qubitMap s' = [0 \<mapsto> 0] \<and>
     noiseModel s' = None \<and> rng s' = (\<lambda>_. 0) \<and> epsilon s' = None"
proof -
  let ?s = "Simulator [0] None None (\<lambda>_. 0)"
  have c: "cls ?s 0" by (simp add: cls_def Simulator_sparse_ok Simulator_entries norm_sq_def)
  have f: "qubitMap ?s = [0 \<mapsto> 0]" "noiseModel ?s = None" "rng ?s = (\<lambda>_. 0)" "results ?s = Map.empty"
    "epsilon ?s = None"
    by (simp_all add: Simulator_def position_map_def)
  have "cl_run (qubitMap ?s) (0, results ?s)
          [Instr X (QOne 0) [] None None, Instr MEASURE (QOne 0) [] None None] = Some (1, [0 \<mapsto> 1])"
    by (simp add: f cl_eval X_mat_def)
  from run_implements_classical [OF c _ _ this] f show ?thesis by simp
qed

end
