(* ===== verification/Scope_Classical.thy ===== *)
theory Scope_Classical
  imports Basis_States
begin

text \<open>
  The scope \<open>Q.use\<close> on classical programs. \<open>cl_use_scope\<close> reads \<open>use_scope\<close> (\<open>Scope\<close>)
  with the simulator replaced by the classical state of \<open>Basis_States\<close>: a basis index and
  the cache of measurement results. The recorder, the compiler and the manager are the
  same definitions; \<open>flush\<close> runs \<open>cl_run\<close> on the compiled circuit, and a release asks
  whether the qubit's bit is clear. The lemmas prove that \<open>use_scope\<close> returns what
  \<open>cl_use_scope\<close> returns, whenever the latter is defined and the random stream lies in
  \<open>[0, 1)\<close>, so that the outcome of a classical scope is computed by \<open>simp\<close> on integers.
\<close>

record cscope =
  cmgr :: manager
  cbits :: int
  cres :: "qubit \<rightharpoonup> int"
  couter :: circuit
  cobserved :: "int option list"

definition ctarget :: "circuit option \<Rightarrow> cscope \<Rightarrow> circuit" where
  "ctarget t sc = (case t of None \<Rightarrow> couter sc | Some c \<Rightarrow> c)"

definition cset_target :: "circuit option \<Rightarrow> circuit \<Rightarrow> cscope \<Rightarrow> circuit option \<times> cscope" where
  "cset_target t c sc = (case t of None \<Rightarrow> (None, sc\<lparr>couter := c\<rparr>) | Some _ \<Rightarrow> (Some c, sc))"

definition cl_flush :: "(qubit \<rightharpoonup> nat) \<Rightarrow> qubit option \<Rightarrow> cscope \<Rightarrow> ((error + int option) \<times> cscope) option" where
  "cl_flush pos measureQubit sc =
     (case compile (getInstructions (couter sc)) of
        Inl e \<Rightarrow> Some (Inl e, sc)
      | Inr compiled \<Rightarrow>
          (case cl_run pos (cbits sc, cres sc) compiled of
             None \<Rightarrow> None
           | Some (j', res') \<Rightarrow>
               Some (Inr (case measureQubit of None \<Rightarrow> None | Some q \<Rightarrow> res' q),
                     sc\<lparr>cbits := j', cres := res', couter := clear (couter sc)\<rparr>)))"

primrec cl_exec :: "(qubit \<rightharpoonup> nat) \<Rightarrow> prog \<Rightarrow> circuit option \<Rightarrow> cscope
    \<Rightarrow> (error option \<times> circuit option \<times> cscope) option" where
  "cl_exec pos Done t sc = Some (None, t, sc)"
| "cl_exec pos (Raise e) t sc = Some (Some e, t, sc)"
| "cl_exec pos (Call cl k) t sc =
     (case record_call (cmgr sc) cl (ctarget t sc) of
        Inl e \<Rightarrow> Some (Some e, t, sc)
      | Inr c \<Rightarrow> (let (t1, sc1) = cset_target t c sc in cl_exec pos k t1 sc1))"
| "cl_exec pos (Meas q k) t sc =
     (case record_measure (cmgr sc) q (ctarget t sc) of
        Inl e \<Rightarrow> Some (Some e, t, sc)
      | Inr c \<Rightarrow>
          (let (t1, sc1) = cset_target t c sc in
           case cl_flush pos (Some q) sc1 of
             None \<Rightarrow> None
           | Some (Inl e, sc2) \<Rightarrow> Some (Some e, t1, sc2)
           | Some (Inr r, sc2) \<Rightarrow> cl_exec pos (k r) t1 (sc2\<lparr>cobserved := cobserved sc2 @ [r]\<rparr>)))"
| "cl_exec pos (IfB q v cb k) t sc =
     (case validate (cmgr sc) q of
        Inl e \<Rightarrow> Some (Some e, t, sc)
      | Inr _ \<Rightarrow>
          (case cl_exec pos cb (Some new_circuit) sc of
             None \<Rightarrow> None
           | Some (Some e, _, sc1) \<Rightarrow> Some (Some e, t, sc1)
           | Some (None, t', sc1) \<Rightarrow>
               (let (t2, sc2) = cset_target t (record_block IF q v (ctarget t' sc1) (ctarget t sc1)) sc1
                in cl_exec pos k t2 sc2)))"
| "cl_exec pos (WhileB q v cb k) t sc =
     (case validate (cmgr sc) q of
        Inl e \<Rightarrow> Some (Some e, t, sc)
      | Inr _ \<Rightarrow>
          (case cl_exec pos cb (Some new_circuit) sc of
             None \<Rightarrow> None
           | Some (Some e, _, sc1) \<Rightarrow> Some (Some e, t, sc1)
           | Some (None, t', sc1) \<Rightarrow>
               (let (t2, sc2) = cset_target t (record_block WHILE q v (ctarget t' sc1) (ctarget t sc1)) sc1
                in cl_exec pos k t2 sc2)))"

text \<open>\<open>manager.release(q, sim)\<close> on a basis state: \<open>isZero\<close> holds exactly when the bit is clear.\<close>

definition cl_release :: "(qubit \<rightharpoonup> nat) \<Rightarrow> qubit \<Rightarrow> int \<Rightarrow> manager \<Rightarrow> error + manager" where
  "cl_release pos q j m =
     (case pos q of
        None \<Rightarrow> Inl TypeError
      | Some k \<Rightarrow> if bit j k then Inl (ReleaseError q) else Inr (m\<lparr>registry := registry m - {q}\<rparr>))"

primrec cl_release_all :: "(qubit \<rightharpoonup> nat) \<Rightarrow> qubit list \<Rightarrow> int \<Rightarrow> manager \<Rightarrow> error option \<times> manager" where
  "cl_release_all pos [] j m = (None, m)"
| "cl_release_all pos (q # qs) j m =
     (case cl_release pos q j m of Inl e \<Rightarrow> (Some e, m) | Inr m' \<Rightarrow> cl_release_all pos qs j m')"

definition cl_finish :: "(qubit \<rightharpoonup> nat) \<Rightarrow> qubit list \<Rightarrow> error option \<Rightarrow> cscope \<Rightarrow> (error option \<times> manager) option" where
  "cl_finish pos qubits err sc =
     (case cl_flush pos None sc of
        None \<Rightarrow> None
      | Some (Inl e, sc1) \<Rightarrow> Some (Some e, cmgr sc1)
      | Some (Inr _, sc1) \<Rightarrow>
          (case cl_release_all pos qubits (cbits sc1) (cmgr sc1) of
             (Some e, m') \<Rightarrow> Some (Some e, m')
           | (None, m') \<Rightarrow> Some (err, m')))"

definition cl_use_scope :: "nat \<Rightarrow> (qubit list \<Rightarrow> prog) \<Rightarrow> manager \<Rightarrow> (error option \<times> manager) option" where
  "cl_use_scope count callback m =
     (let (qubits, m1) = allocate_n count m;
          sc0 = \<lparr>cmgr = m1, cbits = 0, cres = Map.empty, couter = new_circuit, cobserved = []\<rparr>
      in case cl_exec (position_map qubits) (callback qubits) None sc0 of
           None \<Rightarrow> None
         | Some (err, _, sc1) \<Rightarrow> cl_finish (position_map qubits) qubits err sc1)"

text \<open>The simulation relation: the recorder state agrees, and the simulator holds the basis
  index and results of the classical state, without noise, with the default epsilon and
  draws in \<open>[0, 1)\<close>.\<close>

definition crel :: "(qubit \<rightharpoonup> nat) \<Rightarrow> scope \<Rightarrow> cscope \<Rightarrow> bool" where
  "crel pos sc csc \<longleftrightarrow> mgr sc = cmgr csc \<and> outer sc = couter csc \<and> observed sc = cobserved csc \<and>
     cls (ssim sc) (cbits csc) \<and> results (ssim sc) = cres csc \<and> qubitMap (ssim sc) = pos \<and>
     noiseModel (ssim sc) = None \<and> epsilon (ssim sc) = None \<and> (\<forall>i. 0 \<le> rng (ssim sc) i \<and> rng (ssim sc) i < 1)"

section \<open>Lemmas: the simulation\<close>

lemma crel_target: "crel pos sc csc \<Longrightarrow> target t sc = ctarget t csc"
  by (simp add: crel_def target_def ctarget_def split: option.split)

lemma crel_set_target:
  assumes "crel pos sc csc"
  shows "fst (set_target t c sc) = fst (cset_target t c csc)"
    and "crel pos (snd (set_target t c sc)) (snd (cset_target t c csc))"
  using assms by (auto simp: set_target_def cset_target_def crel_def split: option.split)

lemma crel_observed: "crel pos sc csc \<Longrightarrow> crel pos (sc\<lparr>observed := x\<rparr>) (csc\<lparr>cobserved := x\<rparr>)"
  by (simp add: crel_def)

lemma flush_cl:
  assumes f: "cl_flush pos mq csc = Some (x, csc')" and r: "crel pos sc csc"
  shows "\<exists>sc'. flush mq sc = Some (x, sc') \<and> crel pos sc' csc'"
proof (cases "compile (getInstructions (couter csc))")
  case (Inl e)
  then show ?thesis using f r by (auto simp: cl_flush_def flush_def crel_def)
next
  case (Inr compiled)
  obtain j' res' where cr: "cl_run pos (cbits csc, cres csc) compiled = Some (j', res')"
    and x: "x = Inr (case mq of None \<Rightarrow> None | Some q \<Rightarrow> res' q)"
    and c': "csc' = csc\<lparr>cbits := j', cres := res', couter := clear (couter csc)\<rparr>"
    using f Inr by (auto simp: cl_flush_def split: option.splits)
  have rs: "pos = qubitMap (ssim sc)" "snd (cbits csc, cres csc) = results (ssim sc)"
    "cls (ssim sc) (fst (cbits csc, cres csc))" "noiseModel (ssim sc) = None"
    "\<forall>i. 0 \<le> rng (ssim sc) i \<and> rng (ssim sc) i < 1"
    using r by (simp_all add: crel_def)
  obtain s' where s': "run (ssim sc) compiled = Some (Inr s')" "cls s' j'" "results s' = res'"
    "qubitMap s' = qubitMap (ssim sc)" "noiseModel s' = None" "rng s' = rng (ssim sc)"
    "epsilon s' = epsilon (ssim sc)"
    using run_cl [OF cr rs] unfolding run_ok_def by auto
  have "flush mq sc = Some (x, sc\<lparr>ssim := s', outer := clear (outer sc)\<rparr>)"
    using Inr r s'(1,3) x by (simp add: flush_def crel_def getResult_def split: option.split)
  moreover have "crel pos (sc\<lparr>ssim := s', outer := clear (outer sc)\<rparr>) csc'"
    using r s' c' by (simp add: crel_def)
  ultimately show ?thesis by blast
qed

text \<open>The IF and WHILE cases of \<open>exec\<close>: the inner callback on a fresh sub-circuit, then the
  node with its snapshot on the recorder's circuit.\<close>

lemma block_cl:
  assumes cb: "\<And>t sc csc e t' csc'. cl_exec pos cb t csc = Some (e, t', csc') \<Longrightarrow> crel pos sc csc \<Longrightarrow>
                 \<exists>sc'. exec cb t sc = Some (e, t', sc') \<and> crel pos sc' csc'"
    and k: "\<And>t sc csc e t' csc'. cl_exec pos k t csc = Some (e, t', csc') \<Longrightarrow> crel pos sc csc \<Longrightarrow>
                 \<exists>sc'. exec k t sc = Some (e, t', sc') \<and> crel pos sc' csc'"
    and r: "crel pos sc csc"
    and res: "(case cl_exec pos cb (Some new_circuit) csc of
                 None \<Rightarrow> None
               | Some (Some e, _, sc1) \<Rightarrow> Some (Some e, t, sc1)
               | Some (None, t', sc1) \<Rightarrow>
                   (let (t2, sc2) = cset_target t (record_block g q v (ctarget t' sc1) (ctarget t sc1)) sc1
                    in cl_exec pos k t2 sc2)) = Some (e, t', csc')"
  shows "\<exists>sc'. (case exec cb (Some new_circuit) sc of
                 None \<Rightarrow> None
               | Some (Some e, _, sc1) \<Rightarrow> Some (Some e, t, sc1)
               | Some (None, t', sc1) \<Rightarrow>
                   (let (t2, sc2) = set_target t (record_block g q v (target t' sc1) (target t sc1)) sc1
                    in exec k t2 sc2)) = Some (e, t', sc') \<and> crel pos sc' csc'"
proof -
  obtain e1 t1 csc1 where c1: "cl_exec pos cb (Some new_circuit) csc = Some (e1, t1, csc1)"
    using res by (auto split: option.splits)
  obtain sc1 where s1: "exec cb (Some new_circuit) sc = Some (e1, t1, sc1)" and r1: "crel pos sc1 csc1"
    using cb [OF c1 r] by blast
  show ?thesis
  proof (cases e1)
    case (Some er)
    then show ?thesis using res c1 s1 r1 by auto
  next
    case None
    let ?blk = "record_block g q v (ctarget t1 csc1) (ctarget t csc1)"
    have blk: "record_block g q v (target t1 sc1) (target t sc1) = ?blk" using r1 by (simp add: crel_target)
    have "cl_exec pos k (fst (cset_target t ?blk csc1)) (snd (cset_target t ?blk csc1)) = Some (e, t', csc')"
      using res c1 None by (simp add: case_prod_unfold Let_def)
    from k [OF this crel_set_target(2) [OF r1]]
    obtain sc' where "exec k (fst (cset_target t ?blk csc1)) (snd (set_target t ?blk sc1)) = Some (e, t', sc')"
      "crel pos sc' csc'" by blast
    then show ?thesis using s1 None blk crel_set_target(1) [OF r1] by (auto simp: case_prod_unfold Let_def)
  qed
qed

lemma exec_cl:
  "cl_exec pos p t csc = Some (e, t', csc') \<Longrightarrow> crel pos sc csc \<Longrightarrow>
   \<exists>sc'. exec p t sc = Some (e, t', sc') \<and> crel pos sc' csc'"
proof (induction p arbitrary: t sc csc e t' csc')
  case Done
  then show ?case by auto
next
  case (Raise x)
  then show ?case by auto
next
  case (Call cl k)
  have tg: "target t sc = ctarget t csc" and mg: "mgr sc = cmgr csc"
    using Call.prems(2) by (simp_all add: crel_target crel_def)
  show ?case
  proof (cases "record_call (cmgr csc) cl (ctarget t csc)")
    case (Inl er)
    then show ?thesis using Call.prems tg mg by auto
  next
    case (Inr c)
    have "cl_exec pos k (fst (cset_target t c csc)) (snd (cset_target t c csc)) = Some (e, t', csc')"
      using Call.prems(1) Inr by (simp add: case_prod_unfold Let_def)
    from Call.IH [OF this crel_set_target(2) [OF Call.prems(2)]]
    obtain sc' where "exec k (fst (cset_target t c csc)) (snd (set_target t c sc)) = Some (e, t', sc')"
      "crel pos sc' csc'" by blast
    then show ?thesis using Inr tg mg crel_set_target(1) [OF Call.prems(2)] by (auto simp: case_prod_unfold Let_def)
  qed
next
  case (Meas q k)
  have tg: "target t sc = ctarget t csc" and mg: "mgr sc = cmgr csc"
    using Meas.prems(2) by (simp_all add: crel_target crel_def)
  show ?case
  proof (cases "record_measure (cmgr csc) q (ctarget t csc)")
    case (Inl er)
    then show ?thesis using Meas.prems tg mg by auto
  next
    case (Inr c)
    let ?t1 = "fst (cset_target t c csc)" and ?c1 = "snd (cset_target t c csc)"
    obtain x csc2 where cf: "cl_flush pos (Some q) ?c1 = Some (x, csc2)"
      using Meas.prems(1) Inr by (auto simp: case_prod_unfold Let_def split: option.splits)
    obtain sc2 where f: "flush (Some q) (snd (set_target t c sc)) = Some (x, sc2)" and r2: "crel pos sc2 csc2"
      using flush_cl [OF cf crel_set_target(2) [OF Meas.prems(2)]] by blast
    have ex: "exec (Meas q k) t sc =
        (case x of Inl er \<Rightarrow> Some (Some er, ?t1, sc2)
         | Inr r \<Rightarrow> exec (k r) ?t1 (sc2\<lparr>observed := observed sc2 @ [r]\<rparr>))"
      using Inr tg mg f crel_set_target(1) [OF Meas.prems(2)] by (simp add: case_prod_unfold Let_def split: sum.split)
    show ?thesis
    proof (cases x)
      case (Inl er)
      then show ?thesis using Meas.prems(1) Inr cf ex r2 by (auto simp: case_prod_unfold Let_def)
    next
      case (Inr r)
      have "cl_exec pos (k r) ?t1 (csc2\<lparr>cobserved := cobserved csc2 @ [r]\<rparr>) = Some (e, t', csc')"
        using Meas.prems(1) \<open>record_measure (cmgr csc) q (ctarget t csc) = Inr c\<close> cf Inr
        by (simp add: case_prod_unfold Let_def)
      moreover have "crel pos (sc2\<lparr>observed := observed sc2 @ [r]\<rparr>) (csc2\<lparr>cobserved := cobserved csc2 @ [r]\<rparr>)"
        using r2 by (simp add: crel_def)
      ultimately show ?thesis using Meas.IH ex Inr by simp
    qed
  qed
next
  case (IfB q v cb k)
  have mg: "mgr sc = cmgr csc" using IfB.prems(2) by (simp add: crel_def)
  show ?case
  proof (cases "validate (cmgr csc) q")
    case (Inl er)
    then show ?thesis using IfB.prems mg by auto
  next
    case (Inr u)
    then show ?thesis using block_cl [OF IfB.IH IfB.prems(2)] IfB.prems(1) mg by simp
  qed
next
  case (WhileB q v cb k)
  have mg: "mgr sc = cmgr csc" using WhileB.prems(2) by (simp add: crel_def)
  show ?case
  proof (cases "validate (cmgr csc) q")
    case (Inl er)
    then show ?thesis using WhileB.prems mg by auto
  next
    case (Inr u)
    then show ?thesis using block_cl [OF WhileB.IH WhileB.prems(2)] WhileB.prems(1) mg by simp
  qed
qed

lemma isZero_cls:
  assumes c: "cls s j" and e: "epsilon s = None" and q: "qubitMap s q = Some k"
  shows "isZero s q = Inr (\<not> bit j k)"
proof -
  obtain z where es: "entries s = [(j, z)]" "norm_sq z = 1" "activeCount s = 1" "sparse_ok s"
    using c by (rule cls_entries)
  have "0 < memoryBudget s" using es(4) by (simp add: sparse_ok_def buffers_ok_def)
  note t = prune_threshold_bounds [of s 1, OF _ refl this]
  have "real 1 / real (memoryBudget s) \<le> 1" using \<open>0 < memoryBudget s\<close> by simp
  then have "prune_threshold s \<le> prune_base" using t(2) es(3) by simp
  then have eps: "0 < getEffectiveEpsilon s" "getEffectiveEpsilon s < 1"
    using t(1) es(3) e by (simp_all add: getEffectiveEpsilon_def prune_base_def)
  have "prob1_of (2 ^ k) (entries s) = (if bit j k then 1 else 0)"
    using es by (simp add: prob1_of_def and_exp_nonzero_iff)
  then show ?thesis using isZero_eq [OF q] eps by auto
qed

lemma release_all_cl:
  assumes c: "cls s j" and e: "epsilon s = None" and p: "qubitMap s = pos"
  shows "release_all qs s m = cl_release_all pos qs j m"
proof (induction qs arbitrary: m)
  case Nil
  then show ?case by simp
next
  case (Cons q qs)
  have "release q s m = cl_release pos q j m"
  proof (cases "pos q")
    case None
    then show ?thesis using p
      by (simp add: release_def isZero_def getProb1_def qubit_bit_def cl_release_def)
  next
    case (Some k)
    then show ?thesis using isZero_cls [OF c e] p by (simp add: release_def cl_release_def)
  qed
  then show ?case using Cons by (simp split: sum.split)
qed

lemma finish_cl:
  assumes f: "cl_finish pos qubits err csc = Some res" and r: "crel pos sc csc"
  shows "finish qubits err sc = Some res"
proof -
  obtain x csc1 where cf: "cl_flush pos None csc = Some (x, csc1)"
    using f by (auto simp: cl_finish_def split: option.splits)
  obtain sc1 where fl: "flush None sc = Some (x, sc1)" and r1: "crel pos sc1 csc1"
    using flush_cl [OF cf r] by blast
  have "release_all qubits (ssim sc1) (mgr sc1) = cl_release_all pos qubits (cbits csc1) (cmgr csc1)"
    using r1 release_all_cl [of "ssim sc1" "cbits csc1" pos] by (simp add: crel_def)
  then show ?thesis using f cf fl r1 by (auto simp: cl_finish_def finish_def crel_def split: sum.splits)
qed

lemma use_scope_cl:
  assumes u: "\<forall>i. 0 \<le> r i \<and> r i < 1" and c: "cl_use_scope n cb m = Some res"
  shows "use_scope n cb None r m = Some res"
proof -
  obtain qs m1 where a: "allocate_n n m = (qs, m1)" by (cases "allocate_n n m")
  let ?c0 = "\<lparr>cmgr = m1, cbits = 0, cres = Map.empty, couter = new_circuit, cobserved = []\<rparr>"
  let ?s0 = "\<lparr>mgr = m1, ssim = Simulator qs None None r, outer = new_circuit, observed = []\<rparr>"
  obtain e t' csc' where ce: "cl_exec (position_map qs) (cb qs) None ?c0 = Some (e, t', csc')"
    and cf: "cl_finish (position_map qs) qs e csc' = Some res"
    using c a by (auto simp: cl_use_scope_def split: option.splits)
  have "crel (position_map qs) ?s0 ?c0"
    using u by (simp add: crel_def cls_def Simulator_sparse_ok Simulator_entries norm_sq_def)
      (simp add: Simulator_def)
  from exec_cl [OF ce this] obtain sc' where "exec (cb qs) None ?s0 = Some (e, t', sc')"
    "crel (position_map qs) sc' csc'" by blast
  then show ?thesis using a finish_cl [OF cf] by (simp add: use_scope_def)
qed

end
