(* ===== verification/Scope_Tests.thy ===== *)
theory Scope_Tests
  imports Scope_Classical Scope_Safety
begin

text \<open>
  The scope-level cases of the repository's test suite (\<open>src/unnamed/part_001\<close>, the
  describe blocks "Simulator Core Operations" and "Control Flow") whose outcome does not
  depend on \<open>Math.random\<close>: every qubit they measure is in a basis state. A case passes
  when \<open>Q.use\<close> returns normally; \<open>expect(x).toBe(v)\<close> inside the callback throws when it
  fails, so it is the program \<open>expect_eq\<close>, which continues on success and raises
  otherwise. The callbacks are the \<open>prog\<close> trees of the calls they make, with the handles
  bound in order. Each case is proved through the classical model of \<open>Scope_Classical\<close>
  for every process-wide manager and every random stream with draws in \<open>[0, 1)\<close>.
\<close>

text \<open>Jest's verdict on a test whose body is one \<open>Q.use\<close> call: it passes when the call
  returns (no error thrown, no divergence).\<close>

definition passes :: "(error option \<times> manager) option \<Rightarrow> bool" where
  "passes r = (case r of Some (None, _) \<Rightarrow> True | _ \<Rightarrow> False)"

text \<open>\<open>expect(v).toBe(e)\<close> followed by the rest of the callback.\<close>

definition expect_eq :: "int option \<Rightarrow> int \<Rightarrow> prog \<Rightarrow> prog" where
  "expect_eq v e k = (if v = Some e then k else Raise CallbackError)"

definition test29 :: "(nat \<Rightarrow> real) \<Rightarrow> manager \<Rightarrow> bool" where
  "test29 r m \<longleftrightarrow> passes (use_scope 1 (\<lambda>qs. let q = qs ! 0 in
     Call (Cx q) (Meas q (\<lambda>v. expect_eq v 1 (Call (Creset q) Done)))) None r m)"

definition test31 :: "(nat \<Rightarrow> real) \<Rightarrow> manager \<Rightarrow> bool" where
  "test31 r m \<longleftrightarrow> passes (use_scope 2 (\<lambda>qs. let c = qs ! 0; t = qs ! 1 in
     Call (Ccnot c t) (Meas t (\<lambda>v. expect_eq v 0 (calls [Creset c, Creset t] Done)))) None r m)"

definition test32 :: "(nat \<Rightarrow> real) \<Rightarrow> manager \<Rightarrow> bool" where
  "test32 r m \<longleftrightarrow> passes (use_scope 2 (\<lambda>qs. let c = qs ! 0; t = qs ! 1 in
     calls [Cx c, Ccnot c t] (Meas t (\<lambda>v. expect_eq v 1 (calls [Creset c, Creset t] Done)))) None r m)"

definition test34 :: "(nat \<Rightarrow> real) \<Rightarrow> manager \<Rightarrow> bool" where
  "test34 r m \<longleftrightarrow> passes (use_scope 3 (\<lambda>qs. let c1 = qs ! 0; c2 = qs ! 1; t = qs ! 2 in
     calls [Cx c1, Cccx c1 c2 t] (Meas t (\<lambda>v. expect_eq v 0 (calls [Creset c1, Creset c2, Creset t] Done)))) None r m)"

definition test35 :: "(nat \<Rightarrow> real) \<Rightarrow> manager \<Rightarrow> bool" where
  "test35 r m \<longleftrightarrow> passes (use_scope 3 (\<lambda>qs. let c1 = qs ! 0; c2 = qs ! 1; t = qs ! 2 in
     calls [Cx c1, Cx c2, Cccx c1 c2 t] (Meas t (\<lambda>v. expect_eq v 1 (calls [Creset c1, Creset c2, Creset t] Done)))) None r m)"

definition test37 :: "(nat \<Rightarrow> real) \<Rightarrow> manager \<Rightarrow> bool" where
  "test37 r m \<longleftrightarrow> passes (use_scope 1 (\<lambda>qs. let q = qs ! 0 in
     calls [Ch q, Cs q, Cs q, Cz q, Ch q] (Meas q (\<lambda>v. expect_eq v 0 (Call (Creset q) Done)))) None r m)"

definition test38 :: "(nat \<Rightarrow> real) \<Rightarrow> manager \<Rightarrow> bool" where
  "test38 r m \<longleftrightarrow> passes (use_scope 1 (\<lambda>qs. let q = qs ! 0 in
     Call (Cu3 q pi 0 pi) (Meas q (\<lambda>v. expect_eq v 1 (Call (Creset q) Done)))) None r m)"

definition test39 :: "(nat \<Rightarrow> real) \<Rightarrow> manager \<Rightarrow> bool" where
  "test39 r m \<longleftrightarrow> passes (use_scope 1 (\<lambda>qs. let q = qs ! 0 in
     calls [Cx q, Creset q] (Meas q (\<lambda>v. expect_eq v 0 (Call (Creset q) Done)))) None r m)"

definition test40 :: "qubit \<Rightarrow> (nat \<Rightarrow> real) \<Rightarrow> bool" where
  "test40 q r \<longleftrightarrow> isZero (Simulator [q] None None r) q = Inr True"

definition test41 :: "(nat \<Rightarrow> real) \<Rightarrow> manager \<Rightarrow> bool" where
  "test41 r m \<longleftrightarrow> passes (use_scope 2 (\<lambda>qs. let q1 = qs ! 0; q2 = qs ! 1 in
     Call (Cx q1) (Meas q1 (\<lambda>_. IfB q1 1 (Call (Cx q2) Done)
       (Meas q2 (\<lambda>v. expect_eq v 1 (calls [Creset q1, Creset q2] Done)))))) None r m)"

definition test42 :: "(nat \<Rightarrow> real) \<Rightarrow> manager \<Rightarrow> bool" where
  "test42 r m \<longleftrightarrow> passes (use_scope 2 (\<lambda>qs. let q1 = qs ! 0; q2 = qs ! 1 in
     Meas q1 (\<lambda>_. IfB q1 1 (Call (Cx q2) Done)
       (Meas q2 (\<lambda>v. expect_eq v 0 (calls [Creset q1, Creset q2] Done))))) None r m)"

definition test43 :: "(nat \<Rightarrow> real) \<Rightarrow> manager \<Rightarrow> bool" where
  "test43 r m \<longleftrightarrow> passes (use_scope 1 (\<lambda>qs. let q = qs ! 0 in
     Call (Cx q) (WhileB q 0 (Call (Cx q) Done) (Call (Creset q) Done))) None r m)"

definition test44 :: "(nat \<Rightarrow> real) \<Rightarrow> manager \<Rightarrow> bool" where
  "test44 r m \<longleftrightarrow> passes (use_scope 3 (\<lambda>qs. let q1 = qs ! 0; q2 = qs ! 1; q3 = qs ! 2 in
     calls [Cx q1, Cx q2] (Meas q1 (\<lambda>_. Meas q2 (\<lambda>_.
       IfB q1 1 (IfB q2 1 (Call (Cx q3) Done) Done)
         (Meas q3 (\<lambda>v. expect_eq v 1 (calls [Creset q1, Creset q2, Creset q3] Done))))))) None r m)"

lemma passes_cl: "\<forall>i. 0 \<le> r i \<and> r i < 1 \<Longrightarrow> passes (cl_use_scope n cb m) \<Longrightarrow> passes (use_scope n cb None r m)"
  by (auto simp: passes_def split: option.splits dest: use_scope_cl)

lemma scope_test40: "test40 q r"
  unfolding test40_def by (rule Simulator_isZero) simp_all

lemma pi_not_below_EPSILON: "\<not> pi < EPSILON"
proof -
  have "(1::real) / 10 ^ 10 < 1" by simp
  then show ?thesis using pi_ge_two by (simp add: EPSILON_def)
qed

lemma allocate_n_numeral: "allocate_n 2 = allocate_n (Suc (Suc 0))" "allocate_n 3 = allocate_n (Suc (Suc (Suc 0)))"
  by (simp_all add: numeral_2_eq_2 numeral_3_eq_3)

lemmas scope_eval = cl_use_scope_def allocate_n_numeral allocate_def Let_def record_call_def op1_def opN_def validate_def validate_all_def
  isAllocated_def ctarget_def cset_target_def cl_flush_def record_measure_def record_block_def getInstructions_def addOp_def
  clear_def new_circuit_def position_map_def cl_finish_def cl_release_def expect_eq_def calls_def passes_def
  compile_def decompose_def opt_eval isIdentity_def js_rem_pi js_rem_test_angles pi_not_below_EPSILON
  cl_eval U3_mat_def X_mat_def CCX_mat_def CNOT_mat_def

lemma scope_test29: "test29 r m" if "\<forall>i. 0 \<le> r i \<and> r i < 1"
  unfolding test29_def by (rule passes_cl [OF that]) (simp add: scope_eval)

lemma scope_test31: "test31 r m" if "\<forall>i. 0 \<le> r i \<and> r i < 1"
  unfolding test31_def by (rule passes_cl [OF that]) (simp add: scope_eval)

lemma scope_test32: "test32 r m" if "\<forall>i. 0 \<le> r i \<and> r i < 1"
  unfolding test32_def by (rule passes_cl [OF that]) (simp add: scope_eval)

lemma scope_test34: "test34 r m" if "\<forall>i. 0 \<le> r i \<and> r i < 1"
  unfolding test34_def by (rule passes_cl [OF that]) (simp add: scope_eval)

lemma scope_test35: "test35 r m" if "\<forall>i. 0 \<le> r i \<and> r i < 1"
  unfolding test35_def by (rule passes_cl [OF that]) (simp add: scope_eval)

lemma scope_test37: "test37 r m" if "\<forall>i. 0 \<le> r i \<and> r i < 1"
  unfolding test37_def by (rule passes_cl [OF that]) (simp add: scope_eval)

lemma scope_test38: "test38 r m" if "\<forall>i. 0 \<le> r i \<and> r i < 1"
  unfolding test38_def by (rule passes_cl [OF that]) (simp add: scope_eval)

lemma scope_test39: "test39 r m" if "\<forall>i. 0 \<le> r i \<and> r i < 1"
  unfolding test39_def by (rule passes_cl [OF that]) (simp add: scope_eval)

lemma scope_test41: "test41 r m" if "\<forall>i. 0 \<le> r i \<and> r i < 1"
  unfolding test41_def by (rule passes_cl [OF that]) (simp add: scope_eval)

lemma scope_test42: "test42 r m" if "\<forall>i. 0 \<le> r i \<and> r i < 1"
  unfolding test42_def by (rule passes_cl [OF that]) (simp add: scope_eval)

lemma scope_test43: "test43 r m" if "\<forall>i. 0 \<le> r i \<and> r i < 1"
  unfolding test43_def by (rule passes_cl [OF that]) (simp add: scope_eval)

lemma scope_test44: "test44 r m" if "\<forall>i. 0 \<le> r i \<and> r i < 1"
  unfolding test44_def by (rule passes_cl [OF that]) (simp add: scope_eval)

text \<open>
  C40. The deterministic scope-level cases of the repository's test suite pass on the
  model, for every process-wide manager and every random stream with draws in \<open>[0, 1)\<close>:
  X flips \<open>|0\<rangle>\<close> to \<open>|1\<rangle>\<close> (29), CNOT with control \<open>|0\<rangle>\<close> and \<open>|1\<rangle>\<close> (31, 32), Toffoli
  identity and flip (34, 35), \<open>H S S Z H\<close> is the identity (37), \<open>U3(\<pi>, 0, \<pi>)\<close> gives
  \<open>|1\<rangle>\<close> (38), reset forces \<open>|0\<rangle>\<close> (39), a fresh simulator is zero (40), IF taken and
  skipped (41, 42), a WHILE whose guard is never met (43) and nested IF blocks (44): each
  \<open>Q.use\<close> returns normally, every \<open>expect\<close> in it holding and every handle released.
\<close>

theorem scope_test_suite:
  assumes "\<forall>i. 0 \<le> r i \<and> r i < 1"
  shows "test29 r m \<and> test31 r m \<and> test32 r m \<and> test34 r m \<and> test35 r m \<and> test37 r m \<and>
         test38 r m \<and> test39 r m \<and> test40 q r \<and> test41 r m \<and> test42 r m \<and> test43 r m \<and> test44 r m"
  using scope_test29 [OF assms] scope_test31 [OF assms] scope_test32 [OF assms] scope_test34 [OF assms]
    scope_test35 [OF assms] scope_test37 [OF assms] scope_test38 [OF assms] scope_test39 [OF assms]
    scope_test40 scope_test41 [OF assms] scope_test42 [OF assms] scope_test43 [OF assms] scope_test44 [OF assms]
  by blast

theorem scope_test_suite_witness:
  "test29 (\<lambda>_. 0) new_manager \<and> test31 (\<lambda>_. 0) new_manager \<and> test32 (\<lambda>_. 0) new_manager \<and>
   test34 (\<lambda>_. 0) new_manager \<and> test35 (\<lambda>_. 0) new_manager \<and> test37 (\<lambda>_. 0) new_manager \<and>
   test38 (\<lambda>_. 0) new_manager \<and> test39 (\<lambda>_. 0) new_manager \<and> test40 0 (\<lambda>_. 0) \<and>
   test41 (\<lambda>_. 0) new_manager \<and> test42 (\<lambda>_. 0) new_manager \<and> test43 (\<lambda>_. 0) new_manager \<and>
   test44 (\<lambda>_. 0) new_manager"
  using scope_test_suite [of "\<lambda>_. 0" new_manager 0] by simp

end
