(* ===== verification/Spec2Isabelle.thy ===== *)
theory Spec2Isabelle
  imports Simulator_Measure Simulator_Multi Simulator_FastPaths Simulator_Noise Simulator_Reset Compiler Call_Semantics
    Optimizer_Semantics Test_Suite Scope_Safety Basis_States Scope_Tests
begin

text \<open>
  \<^bold>\<open>A verification development of qubitsjs\<close>, a sparse state-vector quantum circuit
  simulator with a peephole compiler, written in JavaScript. The program is modelled by a
  shallow embedding: every part below is a group of HOL definitions translated from the
  source, executable where the source is, with the lemmas that make it correct.

  \<^bold>\<open>How the parts interact.\<close> A user calls \<open>Q.use(n, callback, noise)\<close> (P9,
  \<open>src/src/index.js\<close>). It allocates \<open>n\<close> handles from the process-wide qubit manager (P7),
  builds a simulator over them (P2), and gives the callback a recorder (P8,
  \<open>createOperations\<close> in \<open>src/src/api/operations.js\<close>). The recorder validates each handle
  against the manager and appends instruction nodes to an IR buffer (P3,
  \<open>src/unnamed/part_004\<close>). Measuring, and the end of the scope, flush the buffer: the
  compiler (P6) runs the optimizer's \<open>prune\<close> (P4, \<open>src/src/compiler/optimizer.js\<close>), the
  transpiler (P5, \<open>src/unnamed/part_005\<close>) and \<open>prune\<close> again, and the simulator's \<open>run\<close>
  executes the result with the gate matrices of the catalog (P1, \<open>src/unnamed/part_006\<close>).
  Finally the scope releases its handles, which requires each to be in \<open>|0\<rangle>\<close>. The algorithm
  library (P10, \<open>src/unnamed/part_003\<close>) is a client of the recorder.

  \<^bold>\<open>Theories and what they model.\<close>
  \<^item> \<open>Prelude\<close>: the model's types (\<open>qubit\<close>, \<open>bigint = int\<close>, \<open>qstate\<close>), the \<open>error\<close>
    datatype with one constructor per throw of the sources, \<open>u64\<close> (a \<open>BigUint64Array\<close>
    store, \<open>take_bit 64\<close>), \<open>js_rem\<close> (JavaScript \<open>%\<close>), and the shared lemmas on bits,
    lists and maps.
  \<^item> \<open>Gates\<close> (P1): the gate names and every matrix of \<open>GATES\<close> as an interleaved real list.
  \<^item> \<open>Sparse_State\<close>, \<open>Simulator\<close> (P2): class \<open>Simulator\<close> of \<open>src/src/core/simulator.js\<close>.
    Its fields form the record \<open>sim\<close>, with the twin index and amplitude buffers at their
    capacity, the qubit map, the noise profile, the cached results, and \<open>Math.random\<close> as a
    stream \<open>rng\<close> read at the counter \<open>draws\<close>. Every method is a definition: \<open>ensureCapacity\<close>,
    \<open>prune\<close>, \<open>applyGate\<close>, \<open>apply2QubitGate\<close>, \<open>apply3QubitGate\<close>, \<open>getProb1\<close>, \<open>collapse\<close>,
    \<open>measure_sim\<close> (source \<open>measure\<close>), \<open>isZero\<close>, the noise channel and \<open>run\<close>. The scatter
    loops of the gate methods are folds over an explicit state \<open>scatter\<close> (collision map,
    output buffers, next free slot).
  \<^item> \<open>Semantics\<close>: the abstract meaning of a gate, \<open>gate1\<close> and \<open>gateN\<close>, the matrix action on
    an amplitude function \<open>int \<Rightarrow> complex\<close>.
  \<^item> \<open>Simulator_Gates\<close>, \<open>Simulator_Multi\<close>, \<open>Simulator_Measure\<close>, \<open>Simulator_Noise\<close>,
    \<open>Simulator_Reset\<close>, \<open>Simulator_Run\<close>: the proofs about P2. The abstract view \<open>entries\<close> reads the active slots as (index, amplitude)
    pairs and \<open>amp_of\<close> as a state.
  \<^item> \<open>Circuit\<close> (P3), \<open>Optimizer\<close> (P4), \<open>Transpiler\<close> (P5), \<open>Compiler\<close> (P6).
  \<^item> \<open>Optimizer_Semantics\<close>: the meaning \<open>ops_sem\<close> of an instruction list through the catalog
    matrices (\<open>instr_sem\<close>, as \<open>run\<close> applies a node), the fragment \<open>frag\<close> of fixed gates on
    distinct handles, and the proof that \<open>prune\<close> preserves both.
  \<^item> \<open>Test_Suite\<close>: the deterministic cases of the repository's tests on the pure parts
    (\<open>src/unnamed/part_001\<close>, tests 1--7 and 9--28), each as the boolean its \<open>expect\<close>
    checks, computed on the model.
  \<^item> \<open>Scope_Safety\<close>: scope-level safety of \<open>Q.use\<close> against the spec's invariant, and
    the composition of recorder, compiler, simulator and manager over a whole scope.
  \<^item> \<open>Simulator_FastPaths\<close>: the CZ, CNOT and SWAP fast paths of \<open>apply2QubitGate\<close> against
    the catalog matrices, through one generic lemma \<open>perm_scatter\<close> (an entry accumulated
    at an involution of its index with a real factor) that also carries the Z fast path.
  \<^item> \<open>Basis_States\<close>: the classical reading \<open>cl_run\<close> of an instruction list on a basis
    state (a basis index and the result cache; a gate acts through the single unit entry
    of its matrix column, \<open>col_row\<close>), and the proof that \<open>run\<close> implements it on states with a
    single entry (\<open>cls\<close>). On the way every gate path of \<open>exec_op\<close> is shown to be one
    scatter standing for \<open>gateN\<close> (\<open>exec_op_gate_scatter\<close>).
  \<^item> \<open>Scope_Classical\<close>: \<open>cl_use_scope\<close>, the scope \<open>Q.use\<close> read on that classical state (the
    recorder, compiler and manager are the same definitions, the flush runs \<open>cl_run\<close>, a
    release asks for a clear bit), and the simulation \<open>crel\<close> by which \<open>use_scope\<close> returns
    what \<open>cl_use_scope\<close> returns (\<open>use_scope_cl\<close>). These two theories are reference
    semantics, not translations, and are not in the map.
  \<^item> \<open>Scope_Tests\<close>: the deterministic scope-level cases of the test suite
    (\<open>src/unnamed/part_001\<close>, tests 29, 31, 32, 34, 35, 37--44) as \<open>Q.use\<close> calls whose
    callbacks are \<open>prog\<close> trees; \<open>expect(v).toBe(e)\<close> is \<open>expect_eq\<close>, which raises on a mismatch.
  \<^item> \<open>Qubit_Manager\<close> (P7): the registry as a set, \<open>Symbol()\<close> minted from a counter.
  \<^item> \<open>Operations\<close> (P8): one constructor of \<open>call\<close> per recording method, and \<open>record_call\<close>.
  \<^item> \<open>Scope\<close> (P9): the callback as a tree \<open>prog\<close> of the calls it makes, whose measurement
    continuations take the value \<open>m\<close> returns. It defines \<open>flush\<close>, the interpreter \<open>exec\<close> of
    the recorder (including \<open>if\<close>, \<open>while\<close> and \<open>m\<close> with their sub-circuits), the \<open>finally\<close>
    block \<open>finish\<close>, and \<open>use_scope\<close>.
  \<^item> \<open>Algorithms\<close> (P10): every entry point as the calls it issues, or as a \<open>prog\<close> when it
    measures.
  \<^item> \<open>Call_Semantics\<close>: the meaning of recorded calls through the catalog matrices, and the
    QFT round trip.

  \<^bold>\<open>What the lemmas show\<close> (the claims C1--C40 of the manifest).
  \<^item> Refinement of the gate methods (C1, C2, C12, C13). For a catalog gate on mapped qubits
    below 64, \<open>applyGate\<close>, \<open>apply2QubitGate\<close> and \<open>apply3QubitGate\<close> map the abstract
    state by the matrix action, then cut it at the prune threshold, keeping the sparse
    invariant. The Z fast path equals the Z matrix.
  \<^item> Measurement, reset and noise (C3, C4, C29, C30). Noiseless \<open>measure\<close> returns a
    normalised state consistent with the reported bit. A readout error collapses the state
    onto the wrong outcome. A saturated gate error is the X gate. RESET (measure, X on
    outcome 1, prune) leaves the qubit with probability exactly 0 of reading 1, so the
    manager can release it.
  \<^item> Optimizer, transpiler and compiler (C5--C11, C31, C32). The wire-map invariant of
    \<open>prune\<close>; its length bound; its cancellation across IF nodes; on circuits of fixed gates
    without IF, WHILE, MEASURE or RESET its exact soundness (every cancellation, merge and
    commutation it performs is justified by the matrices) and that it stays in that fragment; exactness of the single-qubit
    decompositions, and RZ up to a global phase; the non-native output of \<open>compile\<close>.
  \<^item> Scope and recorder (C14--C18, C36, C37). A scope whose callback does nothing ends without
    error: release checks the state, so an untouched handle needs no reset (against the
    spec's literal scope-safety invariant). A scope whose handle is not reset ends with that
    handle's ReleaseError whatever the callback threw. Handles of an enclosing scope pass
    validation, and the scope then fails with a TypeError. \<open>m\<close> inside an IF callback
    returns a stale result. The recorder's usage errors and its one-node appends. A scope of
    at most 64 qubits whose callback applies single-qubit gates to its own handles and then
    resets each of them ends without error and gives the registry back (C37): \<open>compile\<close>
    keeps the trailing resets after the pruned gates, \<open>run\<close> applies the gates
    (\<open>applyGate\<close>, the Z fast path included) and each RESET clears its bit in the whole
    support, so every \<open>isZero\<close> check of the release succeeds.
  \<^item> Manager (C19, C20): fresh distinct allocation, and release exactly when the
    probability of 1 is below the effective epsilon.
  \<^item> Termination of \<open>run\<close> (C21, C22): it returns on WHILE-free programs, and a WHILE whose
    guard holds with an empty body diverges.
  \<^item> Algorithms (C23--C26, C28). Grover on one qubit throws. Grover's diffusion is H X X H
    on the first of three or more qubits. QFT then inverse QFT records without error, and
    composes to the identity on every state. The angle order of \<open>vqeAnsatz\<close>.
  \<^item> Roundtrip of the simulator's qubit map (C27).
  \<^item> Fast paths (C38): the sign flip of CZ, the target flip of CNOT and the bit exchange of
    SWAP compute the matrix action of \<open>GATES.CZ\<close>, \<open>GATES.CNOT\<close> and \<open>GATES.SWAP\<close>.
  \<^item> Basis states (C39): from a single-entry state without noise and with draws in
    \<open>[0, 1)\<close>, \<open>run\<close> on a classical circuit returns the index and results \<open>cl_run\<close>
    computes; every measurement is deterministic.
  \<^item> The repository's tests (C33--C35, C40): the optimizer, transpiler, manager and
    circuit cases hold on the model, and so do the deterministic scope-level cases, for
    every manager and every random stream. This checks the model against the expectations
    the authors wrote down, end to end through recorder, compiler, simulator and manager.

  \<^bold>\<open>Bounds and fuel.\<close>
  \<^item> No fuel is used. \<open>run\<close>, whose WHILE loops may not end, is a
    \<open>partial_function (option)\<close> whose \<open>None\<close> is divergence. C21 proves it returns
    (\<open>\<exists>y. run s is = Some y\<close>) on WHILE-free lists by induction on their size. C22 proves
    \<open>None\<close> for a spinning WHILE by fixpoint induction. \<open>flush\<close>, \<open>exec\<close>, \<open>finish\<close> and
    \<open>use_scope\<close> inherit that option.
  \<^item> Indices are unbounded integers stored through \<open>u64\<close>. The refinement lemmas require
    qubit positions below 64, where the store is the identity; beyond that the store
    aliases keys (a finding).
  \<^item> The prune threshold \<open>1e-15 \<cdot> max(1, activeCount/memoryBudget)\<close> and
    \<open>memoryBudget = 5000\<close> are the constants of the source.

  \<^bold>\<open>Not modelled.\<close>
  \<^item> Floating-point rounding and NaN: doubles are reals. An undefined angle or handle read
    out of range is an explicit \<open>None\<close> or error value instead of NaN.
  \<^item> After a \<open>run\<close> that throws, the model keeps the simulator state from before the run,
    where JavaScript keeps the partial state. The scope ends with that error in both.
  \<^item> Callbacks that catch the recorder's exceptions themselves. The callback model
    \<open>prog\<close> propagates every throw, and an oracle is a fixed list of calls.
  \<^item> RESET has no linear meaning in \<open>Call_Semantics\<close>; it is modelled operationally in \<open>run\<close>.
  \<^item> The README (\<open>src/unnamed/part_002\<close>) and the TypeScript declarations
    (\<open>src/unnamed/part_000\<close>) have no behaviour of their own. Of the tests, test 8
    (\<open>Object.isFrozen\<close>) is about JavaScript object identity, which the model has no notion
    of. Of the scope-level cases, those whose outcome is random or that need superposed
    states (30, 33, 36, 48--55) and the noise cases 45--47 are not stated: the classical
    model through which the scope tests are proved has no superposition and no noise
    channel, and a direct evaluation of the simulator is out of reach of \<open>simp\<close> (its
    buffers hold ten thousand slots).
\<close>

end
